theory Spec2Isabelle
  imports Complex_Main
begin

unbundle bit_operations_syntax

section \<open>Python values and errors\<close>

text \<open>
  The development embeds \<^verbatim>\<open>src/cluster/model_builder.py\<close>. Python integers are
  unbounded and are \<^typ>\<open>int\<close> here. A Python exception is a value of \<open>error\<close>,
  and a function that can raise returns \<open>error + 'a\<close>, with \<open>Inl\<close> for the exception.
  \<open>StructError\<close> is \<^verbatim>\<open>struct.error\<close>.
\<close>

datatype error = ValueError | ZeroDivisionError | OverflowError | StructError

text \<open>
  A Python number is an \<open>int\<close> or a \<open>float\<close>. Every finite binary64 value is a
  rational, so a finite float is carried as a \<^typ>\<open>rat\<close>.
\<close>

datatype pynum = PyInt int | PyFloat rat

subsection \<open>Conversion of an integer to a float\<close>

text \<open>\<^verbatim>\<open>int.bit_length()\<close>: the number of binary digits of a natural number.\<close>

fun bit_length :: "nat \<Rightarrow> nat" where
  "bit_length n = (if n = 0 then 0 else Suc (bit_length (n div 2)))"

declare bit_length.simps [simp del]

text \<open>
  \<open>round_shift m sh\<close> is \<open>m / 2 ^ sh\<close> rounded to the nearest integer, a tie going
  to the even neighbour: the rounding of IEEE 754 that CPython applies when an integer
  has more significant bits than the target format.
\<close>

definition round_shift :: "nat \<Rightarrow> nat \<Rightarrow> nat" where
  "round_shift m sh =
     (let q = m div 2 ^ sh; r = m mod 2 ^ sh in
      if 2 * r < 2 ^ sh then q
      else if 2 ^ sh < 2 * r then q + 1
      else if even q then q else q + 1)"

text \<open>
  \<open>round_to_bits p m\<close> is the nearest natural number with at most \<open>p\<close> significant
  bits.
\<close>

definition round_to_bits :: "nat \<Rightarrow> nat \<Rightarrow> nat" where
  "round_to_bits p m =
     (if bit_length m \<le> p then m
      else round_shift m (bit_length m - p) * 2 ^ (bit_length m - p))"

text \<open>
  \<open>float_of_int n\<close> is the binary64 value that Python gives to the integer \<open>n\<close>
  where an operation mixes \<open>int\<close> and \<open>float\<close>: 53 significant bits, and
  \<^verbatim>\<open>OverflowError\<close> from \<open>2 ^ 1024\<close> on. The value is an integer again.
\<close>

definition float_of_int :: "int \<Rightarrow> error + int" where
  "float_of_int n =
     (let m = round_to_bits 53 (nat \<bar>n\<bar>) in
      if 2 ^ 1024 \<le> m then Inl OverflowError else Inr (sgn n * int m))"

text \<open>\<^verbatim>\<open>int(x)\<close> on a float truncates towards zero.\<close>

definition py_trunc :: "rat \<Rightarrow> int" where
  "py_trunc r = (if 0 \<le> r then \<lfloor>r\<rfloor> else \<lceil>r\<rceil>)"

fun py_int :: "pynum \<Rightarrow> int" where
  "py_int (PyInt k) = k"
| "py_int (PyFloat r) = py_trunc r"

text \<open>
  \<^verbatim>\<open>n * x\<close> for an integer \<open>n\<close>. With a float \<open>x\<close> the integer is converted first.
  The product of the two floats is taken exactly: the float factors of this program are
  \<open>0.25\<close> and \<open>0.5\<close>, and multiplying an integer-valued binary64 by either is exact.
\<close>

fun py_mul_int :: "int \<Rightarrow> pynum \<Rightarrow> error + pynum" where
  "py_mul_int n (PyInt k) = Inr (PyInt (n * k))"
| "py_mul_int n (PyFloat r) =
     (case float_of_int n of
        Inl e \<Rightarrow> Inl e
      | Inr d \<Rightarrow> Inr (PyFloat (of_int d * r)))"

section \<open>Binary64 floats\<close>

text \<open>A float is finite, with a rational value, or an infinity or NaN.\<close>

datatype pyfloat = Finite rat | PosInf | NegInf | NaN

definition pow2 :: "int \<Rightarrow> rat" where
  "pow2 k = (if 0 \<le> k then 2 ^ nat k else 1 / 2 ^ nat (- k))"

text \<open>
  The nearest integer to a rational, a tie going to the even one: \<^verbatim>\<open>round(x)\<close> with one
  argument, for a finite float \<open>x\<close>.
\<close>

definition py_round :: "rat \<Rightarrow> int" where
  "py_round x =
     (let f = \<lfloor>x\<rfloor>; d = x - of_int f in
      if d < 1 / 2 then f
      else if 1 / 2 < d then f + 1
      else if even f then f else f + 1)"

text \<open>\<open>ilog2 r\<close> is the integer \<open>e\<close> with \<open>2 ^ e \<le> r < 2 ^ (e + 1)\<close>, for a positive \<open>r\<close>.\<close>

definition ilog2 :: "rat \<Rightarrow> int" where
  "ilog2 r =
     (if 1 \<le> r then int (bit_length (nat \<lfloor>r\<rfloor>)) - 1
      else - int (bit_length (nat (\<lceil>1 / r\<rceil> - 1))))"

text \<open>
  The binary64 nearest to a rational, a tie going to the even significand: 53 significant
  bits, subnormal below \<open>2 ^ -1022\<close>, and an infinity when the result would reach
  \<open>2 ^ 1024\<close>.
\<close>

definition round_binary64 :: "rat \<Rightarrow> pyfloat" where
  "round_binary64 r =
     (if r = 0 then Finite 0
      else
        let a = \<bar>r\<bar>;
            e = max (ilog2 a) (- 1022);
            q = pow2 (e - 52);
            v = of_int (py_round (a / q)) * q
        in if pow2 1024 \<le> v then (if 0 < r then PosInf else NegInf)
           else Finite (if 0 < r then v else - v))"

text \<open>\<^verbatim>\<open>a - b\<close> for two finite floats.\<close>

definition float_sub :: "rat \<Rightarrow> rat \<Rightarrow> pyfloat" where
  "float_sub a b = round_binary64 (a - b)"

text \<open>
  \<^verbatim>\<open>a / b\<close> for two floats. A zero divisor raises \<^verbatim>\<open>ZeroDivisionError\<close>, whatever the
  dividend is; a result too large for a float is an infinity, with no exception.
\<close>

fun float_truediv :: "pyfloat \<Rightarrow> pyfloat \<Rightarrow> error + pyfloat" where
  "float_truediv a (Finite y) =
     (if y = 0 then Inl ZeroDivisionError
      else Inr (case a of
                  Finite x \<Rightarrow> round_binary64 (x / y)
                | PosInf \<Rightarrow> (if 0 < y then PosInf else NegInf)
                | NegInf \<Rightarrow> (if 0 < y then NegInf else PosInf)
                | NaN \<Rightarrow> NaN))"
| "float_truediv a PosInf = Inr (case a of Finite x \<Rightarrow> Finite 0 | _ \<Rightarrow> NaN)"
| "float_truediv a NegInf = Inr (case a of Finite x \<Rightarrow> Finite 0 | _ \<Rightarrow> NaN)"
| "float_truediv a NaN = Inr NaN"

text \<open>\<^verbatim>\<open>x / k\<close> and \<^verbatim>\<open>k - x\<close> for a float \<open>x\<close> and an integer \<open>k\<close>: the integer is converted first.\<close>

definition float_truediv_int :: "pyfloat \<Rightarrow> int \<Rightarrow> error + pyfloat" where
  "float_truediv_int x k =
     (case float_of_int k of
        Inl e \<Rightarrow> Inl e
      | Inr d \<Rightarrow> float_truediv x (Finite (of_int d)))"

definition int_sub_float :: "int \<Rightarrow> pyfloat \<Rightarrow> error + pyfloat" where
  "int_sub_float k x =
     (case float_of_int k of
        Inl e \<Rightarrow> Inl e
      | Inr d \<Rightarrow>
          Inr (case x of
                 Finite r \<Rightarrow> round_binary64 (of_int d - r)
               | PosInf \<Rightarrow> NegInf
               | NegInf \<Rightarrow> PosInf
               | NaN \<Rightarrow> NaN))"

text \<open>
  \<^verbatim>\<open>round(x)\<close> for a float: an infinity raises \<^verbatim>\<open>OverflowError\<close>, NaN
  \<^verbatim>\<open>ValueError\<close>.
\<close>

fun py_round_float :: "pyfloat \<Rightarrow> error + int" where
  "py_round_float (Finite r) = Inr (py_round r)"
| "py_round_float PosInf = Inl OverflowError"
| "py_round_float NegInf = Inl OverflowError"
| "py_round_float NaN = Inl ValueError"

section \<open>Precision types\<close>

datatype Precision = INT2 | INT4 | INT8 | FP16 | BF16 | FP32

fun bytes_per_element :: "Precision \<Rightarrow> pynum" where
  "bytes_per_element INT2 = PyFloat (1 / 4)"
| "bytes_per_element INT4 = PyFloat (1 / 2)"
| "bytes_per_element INT8 = PyInt 1"
| "bytes_per_element FP16 = PyInt 2"
| "bytes_per_element BF16 = PyInt 2"
| "bytes_per_element FP32 = PyInt 4"

fun bit_width :: "Precision \<Rightarrow> nat" where
  "bit_width INT2 = 2"
| "bit_width INT4 = 4"
| "bit_width INT8 = 8"
| "bit_width FP16 = 16"
| "bit_width BF16 = 16"
| "bit_width FP32 = 32"

text \<open>The number a \<open>pynum\<close> stands for.\<close>

fun num_value :: "pynum \<Rightarrow> rat" where
  "num_value (PyInt k) = of_int k"
| "num_value (PyFloat r) = r"

section \<open>Tensor structures\<close>

record TensorSpec =
  name :: string
  shape :: "int list"
  precision :: Precision
  quantization_scale :: "rat option"
  quantization_zero_point :: "int option"

text \<open>The loop of \<^verbatim>\<open>numel\<close>: \<^verbatim>\<open>result = 1; for dim in shape: result *= dim\<close>.\<close>

definition numel :: "'a TensorSpec_scheme \<Rightarrow> int" where
  "numel t = fold (\<lambda>dim result. result * dim) (shape t) 1"

text \<open>\<^verbatim>\<open>int(self.numel * self.precision.bytes_per_element)\<close>.\<close>

definition size_bytes :: "'a TensorSpec_scheme \<Rightarrow> error + int" where
  "size_bytes t =
     (case py_mul_int (numel t) (bytes_per_element (precision t)) of
        Inl e \<Rightarrow> Inl e
      | Inr x \<Rightarrow> Inr (py_int x))"

section \<open>Quantization engine\<close>

text \<open>
  The values to quantize are finite Python floats, carried by their rational values.
  Every operation on them is the binary64 operation: the result is rounded to the
  nearest float, may overflow to an infinity and may underflow to zero.

  \<^verbatim>\<open>min(values)\<close> and \<^verbatim>\<open>max(values)\<close> keep the first smallest or largest item and
  raise \<^verbatim>\<open>ValueError\<close> on an empty list.
\<close>

fun py_min :: "rat list \<Rightarrow> error + rat" where
  "py_min [] = Inl ValueError"
| "py_min (x # xs) = Inr (fold (\<lambda>v m. if v < m then v else m) xs x)"

fun py_max :: "rat list \<Rightarrow> error + rat" where
  "py_max [] = Inl ValueError"
| "py_max (x # xs) = Inr (fold (\<lambda>v m. if m < v then v else m) xs x)"

text \<open>
  \<^verbatim>\<open>compute_scale_zp\<close>: \<^verbatim>\<open>scale = (max_val - min_val) / (qmax - qmin)\<close>, then
  \<^verbatim>\<open>zero_point = int(round(qmin - min_val / scale))\<close>, clamped into \<open>qmin .. qmax\<close>.
\<close>

definition compute_scale_zp :: "rat \<Rightarrow> rat \<Rightarrow> Precision \<Rightarrow> error + pyfloat \<times> int" where
  "compute_scale_zp min_val max_val p =
     (let qmin = 0;
          qmax = push_bit (bit_width p) 1 - 1
      in case float_truediv_int (float_sub max_val min_val) (qmax - qmin) of
           Inl e \<Rightarrow> Inl e
         | Inr scale \<Rightarrow>
        (case float_truediv (Finite min_val) scale of
           Inl e \<Rightarrow> Inl e
         | Inr x \<Rightarrow>
        (case int_sub_float qmin x of
           Inl e \<Rightarrow> Inl e
         | Inr y \<Rightarrow>
        (case py_round_float y of
           Inl e \<Rightarrow> Inl e
         | Inr zero_point \<Rightarrow> Inr (scale, max qmin (min qmax zero_point))))))"

text \<open>
  The body of the loop of \<^verbatim>\<open>quantize_tensor\<close>, for one value \<open>v\<close>:
  \<^verbatim>\<open>q = int(round(v / scale)) + zero_point\<close>, clamped into \<open>0 .. 2 ^ bit_width - 1\<close>.
\<close>

definition quantize_value :: "pyfloat \<Rightarrow> int \<Rightarrow> Precision \<Rightarrow> rat \<Rightarrow> error + int" where
  "quantize_value scale zero_point p v =
     (case float_truediv (Finite v) scale of
        Inl e \<Rightarrow> Inl e
      | Inr x \<Rightarrow>
          (case py_round_float x of
             Inl e \<Rightarrow> Inl e
           | Inr r \<Rightarrow>
               (let q = r + zero_point;
                    q = max 0 (min (push_bit (bit_width p) 1 - 1) q)
                in Inr q)))"

text \<open>The loop \<^verbatim>\<open>for v in values: ... quantized.append(q)\<close>; it stops at the first error.\<close>

fun quantize_values :: "pyfloat \<Rightarrow> int \<Rightarrow> Precision \<Rightarrow> rat list \<Rightarrow> error + int list" where
  "quantize_values scale zero_point p [] = Inr []"
| "quantize_values scale zero_point p (v # vs) =
     (case quantize_value scale zero_point p v of
        Inl e \<Rightarrow> Inl e
      | Inr q \<Rightarrow>
          (case quantize_values scale zero_point p vs of
             Inl e \<Rightarrow> Inl e
           | Inr qs \<Rightarrow> Inr (q # qs)))"

subsection \<open>Packing\<close>

text \<open>
  A byte buffer is a list of integers from \<open>0\<close> to \<open>255\<close>.

  The 2-bit loop: \<^verbatim>\<open>for j in range(4): if i + j < len(values): byte |= (values[i + j] & 0x3) << (j * 2)\<close>.
\<close>

definition int2_byte :: "int list \<Rightarrow> nat \<Rightarrow> int" where
  "int2_byte values i =
     fold (\<lambda>j byte. if i + j < length values
                      then byte OR push_bit (j * 2) ((values ! (i + j)) AND 3)
                      else byte)
       [0, 1, 2, 3] 0"

text \<open>\<^verbatim>\<open>for i in range(0, len(values), 4): ... packed.append(byte)\<close>, from index \<open>i\<close> on.\<close>

function pack_int2 :: "int list \<Rightarrow> nat \<Rightarrow> int list" where
  "pack_int2 values i =
     (if i < length values then int2_byte values i # pack_int2 values (i + 4) else [])"
  by pat_completeness auto
termination
  by (relation "measure (\<lambda>(values, i). length values - i)") auto

declare pack_int2.simps [simp del]

text \<open>
  The 4-bit loop body: the value at \<open>i\<close> in the low nibble, the value at \<open>i + 1\<close>, or
  \<open>0\<close> when there is none, in the high nibble.
\<close>

definition int4_byte :: "int list \<Rightarrow> nat \<Rightarrow> int" where
  "int4_byte values i =
     (let low = (values ! i) AND 15;
          high = (if i + 1 < length values then (values ! (i + 1)) AND 15 else 0)
      in low OR push_bit 4 high)"

function pack_int4 :: "int list \<Rightarrow> nat \<Rightarrow> int list" where
  "pack_int4 values i =
     (if i < length values then int4_byte values i # pack_int4 values (i + 2) else [])"
  by pat_completeness auto
termination
  by (relation "measure (\<lambda>(values, i). length values - i)") auto

declare pack_int4.simps [simp del]

text \<open>\<^verbatim>\<open>bytes(values)\<close> raises \<^verbatim>\<open>ValueError\<close> unless every item is in \<open>range(256)\<close>.\<close>

definition py_bytes :: "int list \<Rightarrow> error + int list" where
  "py_bytes values =
     (if list_all (\<lambda>v. 0 \<le> v \<and> v < 256) values then Inr values else Inl ValueError)"

text \<open>
  \<^verbatim>\<open>struct.pack\<close> with the native formats \<^verbatim>\<open>'e'\<close> and \<^verbatim>\<open>'f'\<close>, applied to an
  integer. The integer is converted to a binary64 first, and that is rounded, to the
  nearest with a tie going to even, to the target format with \<open>eb\<close> exponent bits and
  \<open>mb\<close> fraction bits. \<open>ieee_encode\<close> gives the bit pattern of the rounded value, or
  \<open>None\<close> when it lies beyond the largest finite number of the format.
\<close>

definition ieee_encode :: "nat \<Rightarrow> nat \<Rightarrow> int \<Rightarrow> nat option" where
  "ieee_encode eb mb d =
     (let a = nat \<bar>d\<bar>; sign = (if d < 0 then 1 else 0) in
      if a = 0 then Some 0
      else
        let e = bit_length a - 1;
            m = a - 2 ^ e;
            bits = (if e \<le> mb then m * 2 ^ (mb - e) else round_shift m (e - mb));
            e' = (if bits = 2 ^ mb then e + 1 else e);
            bits' = (if bits = 2 ^ mb then 0 else bits);
            bias = 2 ^ (eb - 1) - 1
        in if bias < e' then None
           else Some (bits' + (e' + bias) * 2 ^ mb + sign * 2 ^ (eb + mb)))"

text \<open>The bit pattern of an infinity with the sign of \<open>d\<close>.\<close>

definition ieee_infinity :: "nat \<Rightarrow> nat \<Rightarrow> int \<Rightarrow> nat" where
  "ieee_infinity eb mb d = (2 ^ eb - 1) * 2 ^ mb + (if d < 0 then 2 ^ (eb + mb) else 0)"

text \<open>The bytes of a bit pattern in the order of a little-endian host, \<open>k\<close> of them.\<close>

definition le_bytes :: "nat \<Rightarrow> nat \<Rightarrow> int list" where
  "le_bytes k w = map (\<lambda>i. int ((w div 256 ^ i) mod 256)) [0..<k]"

text \<open>
  \<^verbatim>\<open>struct.pack('e', v)\<close>: IEEE 754 binary16, 5 exponent and 10 fraction bits. An
  integer too large for a binary64, and one that rounds beyond the largest binary16,
  raise \<^verbatim>\<open>struct.error\<close>: the \<^verbatim>\<open>OverflowError\<close> of the conversion is replaced when the
  argument is an integer.
\<close>

definition struct_pack_e :: "int \<Rightarrow> error + int list" where
  "struct_pack_e v =
     (case float_of_int v of
        Inl e \<Rightarrow> Inl StructError
      | Inr d \<Rightarrow>
          (case ieee_encode 5 10 d of
             None \<Rightarrow> Inl StructError
           | Some w \<Rightarrow> Inr (le_bytes 2 w)))"

text \<open>
  \<^verbatim>\<open>struct.pack('f', v)\<close>: IEEE 754 binary32, 8 exponent and 23 fraction bits. An
  integer too large for a binary64 raises \<^verbatim>\<open>struct.error\<close>. The native format then
  converts with a C cast, which does not raise: a value beyond the largest binary32
  becomes an infinity.
\<close>

definition struct_pack_f :: "int \<Rightarrow> error + int list" where
  "struct_pack_f v =
     (case float_of_int v of
        Inl e \<Rightarrow> Inl StructError
      | Inr d \<Rightarrow>
          (case ieee_encode 8 23 d of
             None \<Rightarrow> Inr (le_bytes 4 (ieee_infinity 8 23 d))
           | Some w \<Rightarrow> Inr (le_bytes 4 w)))"

text \<open>\<^verbatim>\<open>for v in values: packed.extend(struct.pack(fmt, v))\<close>; it stops at the first error.\<close>

fun pack_each :: "(int \<Rightarrow> error + int list) \<Rightarrow> int list \<Rightarrow> error + int list" where
  "pack_each f [] = Inr []"
| "pack_each f (v # vs) =
     (case f v of
        Inl e \<Rightarrow> Inl e
      | Inr b \<Rightarrow>
          (case pack_each f vs of
             Inl e \<Rightarrow> Inl e
           | Inr bs \<Rightarrow> Inr (b @ bs)))"

text \<open>
  \<^verbatim>\<open>_pack_values\<close>. The branch for \<^verbatim>\<open>FP16\<close> and \<^verbatim>\<open>BF16\<close> is one branch of the
  source, \<^verbatim>\<open>precision in (Precision.FP16, Precision.BF16)\<close>, with the format \<^verbatim>\<open>'e'\<close>.
\<close>

fun pack_values :: "int list \<Rightarrow> Precision \<Rightarrow> error + int list" where
  "pack_values values INT2 = Inr (pack_int2 values 0)"
| "pack_values values INT4 = Inr (pack_int4 values 0)"
| "pack_values values INT8 = py_bytes values"
| "pack_values values FP16 = pack_each struct_pack_e values"
| "pack_values values BF16 = pack_each struct_pack_e values"
| "pack_values values FP32 = pack_each struct_pack_f values"

text \<open>
  The encoding that the specification describes for the 16-bit truncated kind, the upper
  16 bits of the binary32 pattern. It is not a function of the source and is stated to be
  compared with what \<^verbatim>\<open>_pack_values\<close> does for \<^verbatim>\<open>BF16\<close>.
\<close>

definition spec_pack_bf16 :: "int \<Rightarrow> error + int list" where
  "spec_pack_bf16 v =
     (case struct_pack_f v of
        Inl e \<Rightarrow> Inl e
      | Inr b \<Rightarrow> Inr (drop 2 b))"

text \<open>\<^verbatim>\<open>quantize_tensor\<close> returns the packed bytes, the scale and the zero point.\<close>

definition quantize_tensor ::
  "rat list \<Rightarrow> Precision \<Rightarrow> error + int list \<times> pyfloat \<times> int" where
  "quantize_tensor values p =
     (if values = [] then Inr ([], Finite 1, 0)
      else
        case py_min values of
          Inl e \<Rightarrow> Inl e
        | Inr min_val \<Rightarrow>
        case py_max values of
          Inl e \<Rightarrow> Inl e
        | Inr max_val \<Rightarrow>
        case compute_scale_zp min_val max_val p of
          Inl e \<Rightarrow> Inl e
        | Inr (scale, zero_point) \<Rightarrow>
        case quantize_values scale zero_point p values of
          Inl e \<Rightarrow> Inl e
        | Inr quantized \<Rightarrow>
        case pack_values quantized p of
          Inl e \<Rightarrow> Inl e
        | Inr packed \<Rightarrow> Inr (packed, scale, zero_point))"

section \<open>Python strings\<close>

text \<open>
  A Python string is a \<^typ>\<open>string\<close>; the model covers ASCII text. \<open>is_space\<close> holds for
  the ASCII characters that \<^verbatim>\<open>str.isspace\<close> accepts.
\<close>

definition is_space :: "char \<Rightarrow> bool" where
  "is_space c =
     (let n = (of_char c :: nat) in (9 \<le> n \<and> n \<le> 13) \<or> (28 \<le> n \<and> n \<le> 32))"

definition upper_char :: "char \<Rightarrow> char" where
  "upper_char c =
     (case map_of (zip ''abcdefghijklmnopqrstuvwxyz'' ''ABCDEFGHIJKLMNOPQRSTUVWXYZ'') c of
        None \<Rightarrow> c
      | Some u \<Rightarrow> u)"

definition upper :: "string \<Rightarrow> string" where
  "upper s = map upper_char s"

definition strip :: "string \<Rightarrow> string" where
  "strip s = rev (dropWhile is_space (rev (dropWhile is_space s)))"

definition endswith :: "string \<Rightarrow> string \<Rightarrow> bool" where
  "endswith s suffix =
     (length suffix \<le> length s \<and> drop (length s - length suffix) s = suffix)"

definition startswith :: "string \<Rightarrow> string \<Rightarrow> bool" where
  "startswith s prefix = (take (length prefix) s = prefix)"

subsection \<open>Numbers from strings\<close>

definition is_digit :: "char \<Rightarrow> bool" where
  "is_digit c = (let n = (of_char c :: nat) in 48 \<le> n \<and> n \<le> 57)"

definition digit_value :: "char \<Rightarrow> nat" where
  "digit_value c = of_char c - 48"

text \<open>
  A group of decimal digits as \<^verbatim>\<open>int()\<close> and \<^verbatim>\<open>float()\<close> accept it: not empty, and
  an underscore only between two digits.
\<close>

fun digits_ok :: "string \<Rightarrow> bool" where
  "digits_ok [] = False"
| "digits_ok [c] = is_digit c"
| "digits_ok (c # d # cs) =
     (is_digit c \<and> (if d = CHR ''_'' then digits_ok cs else digits_ok (d # cs)))"

definition digits_value :: "string \<Rightarrow> nat" where
  "digits_value s = foldl (\<lambda>acc c. if c = CHR ''_'' then acc else 10 * acc + digit_value c) 0 s"

definition count_digits :: "string \<Rightarrow> nat" where
  "count_digits s = length (filter is_digit s)"

text \<open>An optional sign: whether it is \<open>-\<close>, and the rest of the string.\<close>

fun parse_sign :: "string \<Rightarrow> bool \<times> string" where
  "parse_sign [] = (False, [])"
| "parse_sign (c # cs) =
     (if c = CHR ''-'' then (True, cs) else if c = CHR ''+'' then (False, cs) else (False, c # cs))"

text \<open>
  \<^verbatim>\<open>int(s)\<close> for a string: surrounding whitespace, an optional sign and a group of
  digits; anything else raises \<^verbatim>\<open>ValueError\<close>.
\<close>

definition py_int_of_str :: "string \<Rightarrow> error + int" where
  "py_int_of_str s =
     (let (neg, body) = parse_sign (strip s) in
      if digits_ok body
      then Inr (if neg then - int (digits_value body) else int (digits_value body))
      else Inl ValueError)"

subsection \<open>Floats from strings\<close>

definition pow10 :: "int \<Rightarrow> rat" where
  "pow10 k = (if 0 \<le> k then 10 ^ nat k else 1 / 10 ^ nat (- k))"

text \<open>
  The exact value of an unsigned decimal literal in upper case: digits with an optional
  point and an optional exponent after \<open>E\<close>. \<open>None\<close> when the text is not such a literal.
\<close>

definition parse_decimal :: "string \<Rightarrow> rat option" where
  "parse_decimal s =
     (let mant = takeWhile (\<lambda>c. c \<noteq> CHR ''E'') s;
          expo = dropWhile (\<lambda>c. c \<noteq> CHR ''E'') s;
          ip = takeWhile (\<lambda>c. c \<noteq> CHR ''.'') mant;
          point = dropWhile (\<lambda>c. c \<noteq> CHR ''.'') mant;
          fp = tl point;
          mant_ok = (if point = [] then digits_ok ip
                     else (ip = [] \<or> digits_ok ip) \<and> (fp = [] \<or> digits_ok fp) \<and>
                          \<not> (ip = [] \<and> fp = []));
          (eneg, edigits) = parse_sign (tl expo);
          exp_ok = (expo = [] \<or> digits_ok edigits);
          e = (if expo = [] then 0
               else if eneg then - int (digits_value edigits) else int (digits_value edigits))
      in if mant_ok \<and> exp_ok
         then Some (of_nat (digits_value (ip @ fp)) * pow10 (e - int (count_digits fp)))
         else None)"

text \<open>
  \<^verbatim>\<open>float(s)\<close> for a string: surrounding whitespace, an optional sign, then \<^verbatim>\<open>inf\<close>,
  \<^verbatim>\<open>infinity\<close>, \<^verbatim>\<open>nan\<close> or a decimal literal, in any case of the letters; anything else
  raises \<^verbatim>\<open>ValueError\<close>.
\<close>

definition py_float :: "string \<Rightarrow> error + pyfloat" where
  "py_float s =
     (let (neg, body) = parse_sign (upper (strip s)) in
      if body = ''INF'' \<or> body = ''INFINITY'' then Inr (if neg then NegInf else PosInf)
      else if body = ''NAN'' then Inr NaN
      else case parse_decimal body of
             None \<Rightarrow> Inl ValueError
           | Some r \<Rightarrow> Inr (round_binary64 (if neg then - r else r)))"

text \<open>\<^verbatim>\<open>x * k\<close> for a float \<open>x\<close> and an integer \<open>k\<close>: the integer is converted first.\<close>

definition py_float_mul_int :: "pyfloat \<Rightarrow> int \<Rightarrow> error + pyfloat" where
  "py_float_mul_int x k =
     (case float_of_int k of
        Inl e \<Rightarrow> Inl e
      | Inr d \<Rightarrow>
          Inr (case x of
                 Finite r \<Rightarrow> round_binary64 (r * of_int d)
               | PosInf \<Rightarrow> (if 0 < d then PosInf else if d < 0 then NegInf else NaN)
               | NegInf \<Rightarrow> (if 0 < d then NegInf else if d < 0 then PosInf else NaN)
               | NaN \<Rightarrow> NaN))"

text \<open>\<^verbatim>\<open>int(x)\<close> for a float: an infinity raises \<^verbatim>\<open>OverflowError\<close>, NaN \<^verbatim>\<open>ValueError\<close>.\<close>

fun py_int_of_float :: "pyfloat \<Rightarrow> error + int" where
  "py_int_of_float (Finite r) = Inr (py_trunc r)"
| "py_int_of_float PosInf = Inl OverflowError"
| "py_int_of_float NegInf = Inl OverflowError"
| "py_int_of_float NaN = Inl ValueError"

section \<open>Cluster builder\<close>

text \<open>The dictionary \<^verbatim>\<open>units\<close> of \<^verbatim>\<open>parse_memory\<close>, in its insertion order.\<close>

definition units :: "(string \<times> int) list" where
  "units = [(''B'', 1), (''KB'', 1024), (''MB'', 1024 ^ 2), (''GB'', 1024 ^ 3), (''TB'', 1024 ^ 4)]"

text \<open>
  The loop \<^verbatim>\<open>for unit, multiplier in units.items()\<close> and the \<^verbatim>\<open>return int(mem_str)\<close>
  after it. \<^verbatim>\<open>mem_str[:-len(unit)]\<close> is the string without its last \<open>len(unit)\<close>
  characters.
\<close>

fun parse_memory_units :: "string \<Rightarrow> (string \<times> int) list \<Rightarrow> error + int" where
  "parse_memory_units mem_str [] = py_int_of_str mem_str"
| "parse_memory_units mem_str ((unit, multiplier) # rest) =
     (if endswith mem_str unit
      then (case py_float (take (length mem_str - length unit) mem_str) of
              Inl e \<Rightarrow> Inl e
            | Inr x \<Rightarrow>
                (case py_float_mul_int x multiplier of
                   Inl e \<Rightarrow> Inl e
                 | Inr y \<Rightarrow> py_int_of_float y))
      else parse_memory_units mem_str rest)"

definition parse_memory :: "string \<Rightarrow> error + int" where
  "parse_memory mem_str = parse_memory_units (strip (upper mem_str)) units"

definition expand_expert_pattern :: "string \<Rightarrow> string list \<Rightarrow> string list" where
  "expand_expert_pattern pattern all_experts =
     (if endswith pattern ''*''
      then (let prefix = butlast pattern in filter (\<lambda>e. startswith e prefix) all_experts)
      else if pattern \<in> set all_experts then [pattern] else [])"

subsection \<open>Division of integers\<close>

text \<open>
  \<^verbatim>\<open>a / b\<close> for two integers is the binary64 nearest to the quotient; it raises
  \<^verbatim>\<open>ZeroDivisionError\<close> for \<open>b = 0\<close> and \<^verbatim>\<open>OverflowError\<close> when the quotient is too
  large for a float.
\<close>

definition py_int_truediv :: "int \<Rightarrow> int \<Rightarrow> error + rat" where
  "py_int_truediv a b =
     (if b = 0 then Inl ZeroDivisionError
      else case round_binary64 (of_int a / of_int b) of
             Finite r \<Rightarrow> Inr r
           | _ \<Rightarrow> Inl OverflowError)"

section \<open>Model configuration and expert builder\<close>

fun precision_value :: "Precision \<Rightarrow> string" where
  "precision_value INT2 = ''int2''"
| "precision_value INT4 = ''int4''"
| "precision_value INT8 = ''int8''"
| "precision_value FP16 = ''fp16''"
| "precision_value BF16 = ''bf16''"
| "precision_value FP32 = ''fp32''"

text \<open>
  \<^verbatim>\<open>TensorSpec.to_dict\<close>. The entry \<^verbatim>\<open>quantization\<close> is present when the scale is
  neither \<^verbatim>\<open>None\<close> nor zero.
\<close>

record TensorDict =
  td_name :: string
  td_shape :: "int list"
  td_precision :: string
  td_size_bytes :: int
  td_quantization :: "(rat \<times> int option) option"

definition to_dict :: "TensorSpec \<Rightarrow> error + TensorDict" where
  "to_dict t =
     (case size_bytes t of
        Inl e \<Rightarrow> Inl e
      | Inr n \<Rightarrow>
          Inr \<lparr>td_name = name t, td_shape = shape t,
               td_precision = precision_value (precision t), td_size_bytes = n,
               td_quantization =
                 (case quantization_scale t of
                    None \<Rightarrow> None
                  | Some s \<Rightarrow> if s = 0 then None else Some (s, quantization_zero_point t))\<rparr>)"

record ExpertTensor =
  expert_id :: string
  up_proj :: TensorSpec
  down_proj :: TensorSpec
  gate_proj :: "TensorSpec option"

definition total_bytes :: "ExpertTensor \<Rightarrow> error + int" where
  "total_bytes x =
     (case size_bytes (up_proj x) of
        Inl e \<Rightarrow> Inl e
      | Inr u \<Rightarrow>
     (case size_bytes (down_proj x) of
        Inl e \<Rightarrow> Inl e
      | Inr d \<Rightarrow>
     (case gate_proj x of
        None \<Rightarrow> Inr (u + d)
      | Some g \<Rightarrow>
          (case size_bytes g of
             Inl e \<Rightarrow> Inl e
           | Inr s \<Rightarrow> Inr (u + d + s)))))"

record AtomicExpertConfig =
  total_experts :: int
  active_experts :: int
  expert_dim :: int
  shared_dim :: int
  hidden_dim :: int
  vocab_size :: int
  num_layers :: int
  expert_precision :: Precision
  router_precision :: Precision
  shared_precision :: Precision

definition build_expert :: "AtomicExpertConfig \<Rightarrow> string \<Rightarrow> ExpertTensor" where
  "build_expert config eid =
     \<lparr>expert_id = eid,
      up_proj = \<lparr>name = eid @ ''.up_proj'', shape = [expert_dim config, hidden_dim config],
                 precision = expert_precision config,
                 quantization_scale = None, quantization_zero_point = None\<rparr>,
      down_proj = \<lparr>name = eid @ ''.down_proj'', shape = [hidden_dim config, expert_dim config],
                   precision = expert_precision config,
                   quantization_scale = None, quantization_zero_point = None\<rparr>,
      gate_proj = Some \<lparr>name = eid @ ''.gate_proj'',
                        shape = [expert_dim config, hidden_dim config],
                        precision = expert_precision config,
                        quantization_scale = None, quantization_zero_point = None\<rparr>\<rparr>"

definition build_router :: "AtomicExpertConfig \<Rightarrow> TensorSpec" where
  "build_router config =
     \<lparr>name = ''router.weight'', shape = [shared_dim config, total_experts config],
      precision = router_precision config,
      quantization_scale = None, quantization_zero_point = None\<rparr>"

section \<open>Cluster allocation\<close>

text \<open>
  The parsed runtime configuration. A key that \<^verbatim>\<open>dict.get\<close> reads with a scalar default
  is an \<open>option\<close>, \<open>None\<close> when the key is absent; an absent list is the empty list. The
  categories of the registry are kept in the order of the dictionary.
\<close>

record GpuConfig =
  gpu_device :: "string option"
  gpu_memory :: "string option"

record NodeConfig =
  node_config_id :: "string option"
  node_gpu :: "GpuConfig option"
  node_experts :: "string list"

record RuntimeConfig =
  cluster_nodes :: "NodeConfig list"
  registry_categories :: "(string \<times> string list) list"

record NodeAllocation =
  node_id :: string
  device :: string
  memory_budget :: int
  experts :: "string list"
  memory_used :: int

text \<open>\<^verbatim>\<open>for category, cat_config in ...items(): all_experts.extend(...)\<close>.\<close>

definition collect_experts :: "(string \<times> string list) list \<Rightarrow> string list" where
  "collect_experts categories =
     fold (\<lambda>(category, cat_experts) all_experts. all_experts @ cat_experts) categories []"

text \<open>\<^verbatim>\<open>for pattern in node.get("experts", []): allocation.experts.extend(matched)\<close>.\<close>

definition expand_patterns :: "string list \<Rightarrow> string list \<Rightarrow> string list \<Rightarrow> string list" where
  "expand_patterns patterns all_experts es =
     fold (\<lambda>pattern es. es @ expand_expert_pattern pattern all_experts) patterns es"

text \<open>\<^verbatim>\<open>for expert_id in allocation.experts: allocation.memory_used += expert.total_bytes\<close>.\<close>

fun memory_usage :: "AtomicExpertConfig \<Rightarrow> string list \<Rightarrow> int \<Rightarrow> error + int" where
  "memory_usage config [] used = Inr used"
| "memory_usage config (eid # rest) used =
     (case total_bytes (build_expert config eid) of
        Inl e \<Rightarrow> Inl e
      | Inr b \<Rightarrow> memory_usage config rest (used + b))"

text \<open>The body of the loop over the nodes in \<^verbatim>\<open>build_allocation\<close>.\<close>

definition allocate_node ::
  "AtomicExpertConfig \<Rightarrow> string list \<Rightarrow> NodeConfig \<Rightarrow> error + NodeAllocation" where
  "allocate_node config all_experts node =
     (let gpu = (case node_gpu node of
                   None \<Rightarrow> \<lparr>gpu_device = None, gpu_memory = None\<rparr>
                 | Some g \<Rightarrow> g)
      in case parse_memory (case gpu_memory gpu of None \<Rightarrow> ''8GB'' | Some m \<Rightarrow> m) of
           Inl e \<Rightarrow> Inl e
         | Inr budget \<Rightarrow>
             (let allocation =
                    \<lparr>node_id = (case node_config_id node of None \<Rightarrow> ''unknown'' | Some i \<Rightarrow> i),
                     device = (case gpu_device gpu of None \<Rightarrow> ''cpu'' | Some d \<Rightarrow> d),
                     memory_budget = budget, experts = [], memory_used = 0\<rparr>;
                  allocation =
                    allocation\<lparr>experts :=
                      expand_patterns (node_experts node) all_experts (experts allocation)\<rparr>
              in case memory_usage config (experts allocation) (memory_used allocation) of
                   Inl e \<Rightarrow> Inl e
                 | Inr used \<Rightarrow> Inr (allocation\<lparr>memory_used := used\<rparr>)))"

text \<open>The loop over the nodes; it stops at the first error.\<close>

fun allocate_nodes ::
  "AtomicExpertConfig \<Rightarrow> string list \<Rightarrow> NodeConfig list \<Rightarrow> error + NodeAllocation list" where
  "allocate_nodes config all_experts [] = Inr []"
| "allocate_nodes config all_experts (node # rest) =
     (case allocate_node config all_experts node of
        Inl e \<Rightarrow> Inl e
      | Inr allocation \<Rightarrow>
          (case allocate_nodes config all_experts rest of
             Inl e \<Rightarrow> Inl e
           | Inr allocations \<Rightarrow> Inr (allocation # allocations)))"

definition build_allocation ::
  "RuntimeConfig \<Rightarrow> AtomicExpertConfig \<Rightarrow> error + NodeAllocation list" where
  "build_allocation rc config =
     allocate_nodes config (collect_experts (registry_categories rc)) (cluster_nodes rc)"

subsection \<open>Deployment plan\<close>

text \<open>
  The entries of \<^verbatim>\<open>plan["cluster"]["nodes"]\<close> and of \<^verbatim>\<open>plan["experts"]\<close>. The
  utilization is a float, or the integer \<open>0\<close> when the budget is not positive.
\<close>

record NodeInfo =
  info_node_id :: string
  info_device :: string
  memory_budget_bytes :: int
  memory_used_bytes :: int
  memory_utilization :: pynum
  expert_count :: nat
  info_experts :: "string list"

record ExpertInfo =
  detail_id :: string
  detail_node :: string
  detail_device :: string
  detail_up_proj :: TensorDict
  detail_down_proj :: TensorDict
  detail_gate_proj :: "TensorDict option"
  detail_total_bytes :: int

record DeploymentPlan =
  plan_total_experts :: int
  plan_active_experts :: int
  plan_expert_dim :: int
  plan_shared_dim :: int
  plan_hidden_dim :: int
  plan_expert_precision :: string
  plan_router_precision :: string
  bytes_per_expert_element :: pynum
  plan_router :: TensorDict
  plan_nodes :: "NodeInfo list"
  total_memory_used :: int
  total_memory_budget :: int
  plan_experts :: "ExpertInfo list"

definition node_info :: "NodeAllocation \<Rightarrow> error + NodeInfo" where
  "node_info alloc =
     (case (if 0 < memory_budget alloc
            then map_sum id PyFloat (py_int_truediv (memory_used alloc) (memory_budget alloc))
            else Inr (PyInt 0)) of
        Inl e \<Rightarrow> Inl e
      | Inr u \<Rightarrow>
          Inr \<lparr>info_node_id = node_id alloc, info_device = device alloc,
               memory_budget_bytes = memory_budget alloc,
               memory_used_bytes = memory_used alloc,
               memory_utilization = u,
               expert_count = length (experts alloc),
               info_experts = experts alloc\<rparr>)"

definition expert_info ::
  "AtomicExpertConfig \<Rightarrow> NodeAllocation \<Rightarrow> string \<Rightarrow> error + ExpertInfo" where
  "expert_info config alloc eid =
     (let expert = build_expert config eid in
      case to_dict (up_proj expert) of
        Inl e \<Rightarrow> Inl e
      | Inr up \<Rightarrow>
     (case to_dict (down_proj expert) of
        Inl e \<Rightarrow> Inl e
      | Inr down \<Rightarrow>
     (case (case gate_proj expert of
              None \<Rightarrow> Inr None
            | Some g \<Rightarrow> map_sum id Some (to_dict g)) of
        Inl e \<Rightarrow> Inl e
      | Inr gate \<Rightarrow>
     (case total_bytes expert of
        Inl e \<Rightarrow> Inl e
      | Inr tb \<Rightarrow>
          Inr \<lparr>detail_id = eid, detail_node = node_id alloc, detail_device = device alloc,
               detail_up_proj = up, detail_down_proj = down, detail_gate_proj = gate,
               detail_total_bytes = tb\<rparr>))))"

text \<open>\<^verbatim>\<open>for expert_id in alloc.experts: ... plan["experts"].append(...)\<close>.\<close>

fun expert_details ::
  "AtomicExpertConfig \<Rightarrow> NodeAllocation \<Rightarrow> string list \<Rightarrow> ExpertInfo list
     \<Rightarrow> error + ExpertInfo list" where
  "expert_details config alloc [] details = Inr details"
| "expert_details config alloc (eid # rest) details =
     (case expert_info config alloc eid of
        Inl e \<Rightarrow> Inl e
      | Inr d \<Rightarrow> expert_details config alloc rest (details @ [d]))"

text \<open>
  The loop \<^verbatim>\<open>for alloc in allocations\<close>. Its state is the list of node records, the two
  running totals and the list of expert records.
\<close>

fun plan_allocations ::
  "AtomicExpertConfig \<Rightarrow> NodeAllocation list \<Rightarrow> NodeInfo list \<times> int \<times> int \<times> ExpertInfo list
     \<Rightarrow> error + NodeInfo list \<times> int \<times> int \<times> ExpertInfo list" where
  "plan_allocations config [] state = Inr state"
| "plan_allocations config (alloc # rest) (nodes, total_used, total_budget, details) =
     (case node_info alloc of
        Inl e \<Rightarrow> Inl e
      | Inr info \<Rightarrow>
          (case expert_details config alloc (experts alloc) details of
             Inl e \<Rightarrow> Inl e
           | Inr details' \<Rightarrow>
               plan_allocations config rest
                 (nodes @ [info], total_used + memory_used alloc,
                  total_budget + memory_budget alloc, details')))"

definition generate_deployment_plan ::
  "RuntimeConfig \<Rightarrow> AtomicExpertConfig \<Rightarrow> error + DeploymentPlan" where
  "generate_deployment_plan rc config =
     (case build_allocation rc config of
        Inl e \<Rightarrow> Inl e
      | Inr allocations \<Rightarrow>
     (case to_dict (build_router config) of
        Inl e \<Rightarrow> Inl e
      | Inr router \<Rightarrow>
     (case plan_allocations config allocations ([], 0, 0, []) of
        Inl e \<Rightarrow> Inl e
      | Inr (nodes, total_used, total_budget, details) \<Rightarrow>
          Inr \<lparr>plan_total_experts = total_experts config,
               plan_active_experts = active_experts config,
               plan_expert_dim = expert_dim config,
               plan_shared_dim = shared_dim config,
               plan_hidden_dim = hidden_dim config,
               plan_expert_precision = precision_value (expert_precision config),
               plan_router_precision = precision_value (router_precision config),
               bytes_per_expert_element = bytes_per_element (expert_precision config),
               plan_router = router,
               plan_nodes = nodes,
               total_memory_used = total_used,
               total_memory_budget = total_budget,
               plan_experts = details\<rparr>)))"

subsection \<open>A worked configuration\<close>

text \<open>
  The configuration of the end-to-end scenario of the specification, with two nodes:
  the budgets are given in bytes, \<open>1024\<close> and \<open>0\<close>.
\<close>

definition scenario_config :: AtomicExpertConfig where
  "scenario_config =
     \<lparr>total_experts = 108, active_experts = 4, expert_dim = 512, shared_dim = 1024,
      hidden_dim = 2048, vocab_size = 32000, num_layers = 12,
      expert_precision = INT4, router_precision = FP16, shared_precision = FP16\<rparr>"

definition scenario_runtime :: RuntimeConfig where
  "scenario_runtime =
     \<lparr>cluster_nodes =
        [\<lparr>node_config_id = Some ''node-0'',
          node_gpu = Some \<lparr>gpu_device = Some ''cuda:0'', gpu_memory = Some ''1024''\<rparr>,
          node_experts = [''expert-*'']\<rparr>,
         \<lparr>node_config_id = Some ''node-1'',
          node_gpu = Some \<lparr>gpu_device = None, gpu_memory = Some ''0''\<rparr>,
          node_experts = [''expert-1'']\<rparr>],
      registry_categories = [(''core'', [''expert-0'', ''expert-1''])]\<rparr>"

section \<open>Facts about the integer conversion\<close>

lemma bit_length_le: "n < 2 ^ k \<Longrightarrow> bit_length n \<le> k"
proof (induction k arbitrary: n)
  case 0
  then show ?case by (simp add: bit_length.simps)
next
  case (Suc k)
  show ?case
  proof (cases "n = 0")
    case True
    then show ?thesis by (simp add: bit_length.simps)
  next
    case False
    from Suc.prems have "n div 2 < 2 ^ k" by simp
    then have "bit_length (n div 2) \<le> k" by (rule Suc.IH)
    with False show ?thesis by (subst bit_length.simps) simp
  qed
qed

lemma float_of_int_exact:
  assumes "\<bar>n\<bar> < 2 ^ 53"
  shows "float_of_int n = Inr n"
proof -
  have small: "nat \<bar>n\<bar> < 2 ^ 53" using assms by (simp add: nat_less_iff)
  then have "bit_length (nat \<bar>n\<bar>) \<le> 53" by (rule bit_length_le)
  then have r: "round_to_bits 53 (nat \<bar>n\<bar>) = nat \<bar>n\<bar>" by (simp add: round_to_bits_def)
  have "(2::nat) ^ 53 < 2 ^ 1024" by simp
  with small have "\<not> (2::nat) ^ 1024 \<le> nat \<bar>n\<bar>" by linarith
  moreover have "sgn n * int (nat \<bar>n\<bar>) = n" by (simp add: sgn_if)
  ultimately show ?thesis by (simp add: float_of_int_def r)
qed

lemma fold_mult_prod_list: "fold (\<lambda>dim result. result * dim) ds (a::int) = a * prod_list ds"
  by (induction ds arbitrary: a) (simp_all add: mult.assoc)

lemma numel_prod_list: "numel t = prod_list (shape t)"
  by (simp add: numel_def fold_mult_prod_list)

lemma prod_list_pos: "\<forall>d \<in> set ds. (0::int) < d \<Longrightarrow> 0 < prod_list ds"
  by (induction ds) simp_all

lemma floor_of_int_mult: "\<lfloor>rat_of_int n * of_int k\<rfloor> = n * k"
  by (metis floor_of_int of_int_mult)

lemma floor_of_int_mult_numeral: "\<lfloor>rat_of_int n * numeral k\<rfloor> = n * numeral k"
  using floor_of_int_mult [of n "numeral k"] by simp

lemma bit_length_example: "bit_length 18014398509481986 = 55"
  by (simp add: bit_length.simps)

lemma float_of_int_example: "float_of_int 18014398509481986 = Inr 18014398509481984"
  by (simp add: float_of_int_def round_to_bits_def round_shift_def bit_length_example)

lemma bit_length_upper: "n < 2 ^ bit_length n"
proof (induction n rule: bit_length.induct)
  case (1 n)
  show ?case
  proof (cases "n = 0")
    case True
    then show ?thesis by (simp add: bit_length.simps)
  next
    case False
    then have "n div 2 < 2 ^ bit_length (n div 2)" by (rule 1)
    then have "n < 2 * 2 ^ bit_length (n div 2)" by linarith
    with False show ?thesis by (subst bit_length.simps) simp
  qed
qed

lemma bit_length_lower: "0 < n \<Longrightarrow> 2 ^ (bit_length n - 1) \<le> n"
proof (induction n rule: bit_length.induct)
  case (1 n)
  from 1(2) have n: "n \<noteq> 0" by simp
  have bl: "bit_length n = Suc (bit_length (n div 2))"
    using n by (subst bit_length.simps) simp
  show ?case
  proof (cases "n div 2 = 0")
    case True
    then show ?thesis using 1(2) by (simp add: bl bit_length.simps)
  next
    case False
    then have "2 ^ (bit_length (n div 2) - 1) \<le> n div 2" using 1(1) [OF n] by simp
    moreover have "0 < bit_length (n div 2)"
      using False by (subst bit_length.simps) simp
    then have "(2::nat) ^ bit_length (n div 2) = 2 * 2 ^ (bit_length (n div 2) - 1)"
      by (cases "bit_length (n div 2)") simp_all
    ultimately have "2 ^ bit_length (n div 2) \<le> n" by linarith
    then show ?thesis by (simp add: bl)
  qed
qed

lemma bit_length_pos: "0 < n \<Longrightarrow> 0 < bit_length n"
  by (subst bit_length.simps) simp

section \<open>Facts about binary64 rounding\<close>

lemma floor_rat_numeral_div [simp]:
  "\<lfloor>numeral a / numeral b :: rat\<rfloor> = numeral a div numeral b"
  using floor_divide_of_int_eq [of "numeral a" "numeral b", where ?'a = rat] by simp

lemma floor_rat_neg_numeral_div [simp]:
  "\<lfloor>- (numeral a / numeral b) :: rat\<rfloor> = - numeral a div numeral b"
  using floor_divide_of_int_eq [of "- numeral a" "numeral b", where ?'a = rat] by simp

lemma pow2_powi: "pow2 k = 2 powi k"
  by (simp add: pow2_def power_int_def power_one_over inverse_eq_divide)

lemma pow2_pos: "0 < pow2 k"
  by (simp add: pow2_powi)

lemma pow2_add: "pow2 (a + b) = pow2 a * pow2 b"
  by (simp add: pow2_powi power_int_add)

lemma pow2_mono: "a \<le> b \<Longrightarrow> pow2 a \<le> pow2 b"
  by (simp add: pow2_powi power_int_increasing)

lemma pow2_strict_mono: "a < b \<Longrightarrow> pow2 a < pow2 b"
  by (simp add: pow2_powi power_int_strict_increasing)

lemma pow2_le_D: "pow2 a < pow2 b \<Longrightarrow> a < b"
  using pow2_mono [of b a] by (cases "a < b") simp_all

lemma pow2_nat: "pow2 (int n) = 2 ^ n"
  by (simp add: pow2_def)

lemma pow2_neg_nat: "pow2 (- int n) = 1 / 2 ^ n"
  by (simp add: pow2_powi power_int_minus_divide)

text \<open>\<open>ilog2\<close> is the exponent of the binade of a positive rational.\<close>

lemma ilog2_bounds:
  assumes "0 < r"
  shows "pow2 (ilog2 r) \<le> r \<and> r < pow2 (ilog2 r + 1)"
proof (cases "1 \<le> r")
  case True
  define n where "n = nat \<lfloor>r\<rfloor>"
  have fl: "1 \<le> \<lfloor>r\<rfloor>" using True by simp
  then have n0: "0 < n" by (simp add: n_def)
  have nr: "rat_of_nat n = of_int \<lfloor>r\<rfloor>" using fl by (simp add: n_def)
  have lo: "rat_of_nat n \<le> r" unfolding nr by simp
  have hi: "r < rat_of_nat n + 1" unfolding nr by linarith
  have e: "ilog2 r = int (bit_length n - 1)"
    using True bit_length_pos [OF n0] by (simp add: ilog2_def n_def [symmetric])
  have e1: "ilog2 r + 1 = int (bit_length n)"
    using e bit_length_pos [OF n0] by simp
  have "rat_of_nat (2 ^ (bit_length n - 1)) \<le> rat_of_nat n"
    using bit_length_lower [OF n0] by (simp only: of_nat_le_iff)
  then have "2 ^ (bit_length n - 1) \<le> rat_of_nat n" by simp
  then have 1: "pow2 (ilog2 r) \<le> r" unfolding e pow2_nat using lo by linarith
  have "n + 1 \<le> 2 ^ bit_length n" using bit_length_upper [of n] by simp
  then have "rat_of_nat (n + 1) \<le> rat_of_nat (2 ^ bit_length n)" by (simp only: of_nat_le_iff)
  then have "rat_of_nat n + 1 \<le> 2 ^ bit_length n" by simp
  then have 2: "r < pow2 (ilog2 r + 1)" unfolding e1 pow2_nat using hi by linarith
  from 1 2 show ?thesis ..
next
  case False
  define k where "k = nat (\<lceil>1 / r\<rceil> - 1)"
  have "1 < 1 / r" using False assms by simp
  then have c: "2 \<le> \<lceil>1 / r\<rceil>" by (simp add: less_ceiling_iff)
  then have k0: "0 < k" by (simp add: k_def)
  have "0 \<le> \<lceil>1 / r\<rceil> - 1" using c by linarith
  then have "int k = \<lceil>1 / r\<rceil> - 1" unfolding k_def by (rule nat_0_le)
  then have "rat_of_int (int k) = rat_of_int (\<lceil>1 / r\<rceil> - 1)" by (simp only:)
  then have kr: "rat_of_nat k = of_int \<lceil>1 / r\<rceil> - 1" by simp
  have lo: "rat_of_nat k < 1 / r" unfolding kr by linarith
  have hi: "1 / r \<le> rat_of_nat k + 1" unfolding kr by simp
  have e: "ilog2 r = - int (bit_length k)"
    using False by (simp add: ilog2_def k_def [symmetric])
  have e1: "ilog2 r + 1 = - int (bit_length k - 1)"
    using e bit_length_pos [OF k0] by simp
  have "k + 1 \<le> 2 ^ bit_length k" using bit_length_upper [of k] by simp
  then have "rat_of_nat (k + 1) \<le> rat_of_nat (2 ^ bit_length k)" by (simp only: of_nat_le_iff)
  then have "rat_of_nat k + 1 \<le> 2 ^ bit_length k" by simp
  then have "1 / r \<le> 2 ^ bit_length k" using hi by linarith
  then have "1 \<le> 2 ^ bit_length k * r" using assms by (simp add: field_simps)
  then have 1: "pow2 (ilog2 r) \<le> r" unfolding e pow2_neg_nat by (simp add: field_simps)
  have "rat_of_nat (2 ^ (bit_length k - 1)) \<le> rat_of_nat k"
    using bit_length_lower [OF k0] by (simp only: of_nat_le_iff)
  then have "2 ^ (bit_length k - 1) \<le> rat_of_nat k" by simp
  then have "2 ^ (bit_length k - 1) < 1 / r" using lo by linarith
  then have "2 ^ (bit_length k - 1) * r < 1" using assms by (simp add: field_simps)
  then have 2: "r < pow2 (ilog2 r + 1)" unfolding e1 pow2_neg_nat by (simp add: field_simps)
  from 1 2 show ?thesis ..
qed

lemma ilog2_unique:
  assumes "pow2 e \<le> r" and "r < pow2 (e + 1)"
  shows "ilog2 r = e"
proof -
  have r: "0 < r" using assms(1) pow2_pos [of e] by linarith
  have "pow2 (ilog2 r) < pow2 (e + 1)" using ilog2_bounds [OF r] assms(2) by linarith
  then have 1: "ilog2 r < e + 1" by (rule pow2_le_D)
  have "pow2 e < pow2 (ilog2 r + 1)" using ilog2_bounds [OF r] assms(1) by linarith
  then have 2: "e < ilog2 r + 1" by (rule pow2_le_D)
  from 1 2 show ?thesis by simp
qed

lemma py_round_bounds: "\<bar>of_int (py_round x) - x\<bar> \<le> 1 / 2"
proof -
  have "of_int \<lfloor>x\<rfloor> \<le> x" "x < of_int \<lfloor>x\<rfloor> + 1" by linarith+
  then show ?thesis by (auto simp add: py_round_def Let_def)
qed

lemma py_round_near: "x - 1 / 2 \<le> of_int (py_round x) \<and> of_int (py_round x) \<le> x + 1 / 2"
  using py_round_bounds [of x] by (simp only: abs_le_iff) linarith

lemma py_round_of_int: "py_round (of_int n) = n"
  by (simp add: py_round_def)

lemma py_round_ge:
  assumes "of_int n \<le> x"
  shows "n \<le> py_round x"
proof -
  have "rat_of_int n - 1 / 2 \<le> of_int (py_round x)" using py_round_near [of x] assms by linarith
  then have "rat_of_int (n - 1) < of_int (py_round x)" by simp
  then have "n - 1 < py_round x" by (simp only: of_int_less_iff)
  then show ?thesis by simp
qed

lemma pow2_half: "pow2 (e - 52) / 2 = pow2 (e - 53)"
  using pow2_add [of "e - 53" 1] by (simp add: pow2_def)

lemma pow2_52: "pow2 e / pow2 (e - 52) = 2 ^ 52"
  using pow2_add [of "e - 52" 52] pow2_pos [of "e - 52"] by (simp add: pow2_def)


text \<open>The significand of the rounded value and its distance to the exact one.\<close>

lemma round_binary64_step:
  assumes "r \<noteq> 0" and "max (ilog2 \<bar>r\<bar>) (- 1022) = e"
  shows "round_binary64 r =
     (if pow2 1024 \<le> of_int (py_round (\<bar>r\<bar> / pow2 (e - 52))) * pow2 (e - 52)
      then (if 0 < r then PosInf else NegInf)
      else Finite (if 0 < r then of_int (py_round (\<bar>r\<bar> / pow2 (e - 52))) * pow2 (e - 52)
                   else - (of_int (py_round (\<bar>r\<bar> / pow2 (e - 52))) * pow2 (e - 52))))"
  unfolding round_binary64_def Let_def assms(2) using assms(1) by (simp only: if_False)

lemma significand_error:
  fixes a :: rat
  shows "\<bar>of_int (py_round (a / pow2 (e - 52))) * pow2 (e - 52) - a\<bar> \<le> pow2 (e - 53)"
proof -
  let ?q = "pow2 (e - 52)"
  have q: "0 < ?q" by (rule pow2_pos)
  have "of_int (py_round (a / ?q)) * ?q - a = (of_int (py_round (a / ?q)) - a / ?q) * ?q"
    using q by (simp add: field_simps)
  then have "\<bar>of_int (py_round (a / ?q)) * ?q - a\<bar> = \<bar>of_int (py_round (a / ?q)) - a / ?q\<bar> * ?q"
    using q by (simp add: abs_mult)
  also have "\<dots> \<le> (1 / 2) * ?q"
    using py_round_bounds [of "a / ?q"] q by (intro mult_right_mono) simp_all
  also have "\<dots> = pow2 (e - 53)" using pow2_half [of e] by simp
  finally show ?thesis .
qed

lemma significand_lower:
  fixes a :: rat
  assumes "pow2 e \<le> a"
  shows "pow2 e \<le> of_int (py_round (a / pow2 (e - 52))) * pow2 (e - 52)"
proof -
  let ?q = "pow2 (e - 52)"
  have q: "0 < ?q" by (rule pow2_pos)
  have "pow2 e / ?q \<le> a / ?q" using assms q by (simp add: divide_right_mono)
  then have "rat_of_int (2 ^ 52) \<le> a / ?q" unfolding pow2_52 by simp
  then have "2 ^ 52 \<le> py_round (a / ?q)" by (rule py_round_ge)
  then have "rat_of_int (2 ^ 52) \<le> of_int (py_round (a / ?q))" by (simp only: of_int_le_iff)
  then have "2 ^ 52 * ?q \<le> of_int (py_round (a / ?q)) * ?q"
    using q by (intro mult_right_mono) simp_all
  moreover have "2 ^ 52 * ?q = pow2 e" using pow2_52 [of e] q by (simp add: field_simps)
  ultimately show ?thesis by simp
qed

lemma round_binary64_error:
  assumes "round_binary64 r = Finite f" and "r \<noteq> 0"
  shows "\<exists>e. - 1022 \<le> e \<and> \<bar>f - r\<bar> \<le> pow2 (e - 53) \<and>
           (pow2 e \<le> \<bar>r\<bar> \<or> e = - 1022) \<and> (pow2 e \<le> \<bar>f\<bar> \<or> e = - 1022) \<and>
           (0 < r \<longrightarrow> 0 \<le> f) \<and> (r < 0 \<longrightarrow> f \<le> 0)"
proof -
  define e where "e = max (ilog2 \<bar>r\<bar>) (- 1022)"
  define v where "v = of_int (py_round (\<bar>r\<bar> / pow2 (e - 52))) * pow2 (e - 52)"
  have a: "0 < \<bar>r\<bar>" using assms(2) by simp
  have st: "round_binary64 r =
     (if pow2 1024 \<le> v then (if 0 < r then PosInf else NegInf)
      else Finite (if 0 < r then v else - v))"
    unfolding v_def using round_binary64_step [OF assms(2) e_def [symmetric]] .
  have f: "f = (if 0 < r then v else - v)"
    using assms(1) unfolding st by (simp split: if_splits)
  have err: "\<bar>v - \<bar>r\<bar>\<bar> \<le> pow2 (e - 53)" unfolding v_def by (rule significand_error)
  have 1: "\<bar>f - r\<bar> \<le> pow2 (e - 53)"
    using err assms(2) unfolding f by (cases "0 < r") (simp_all add: abs_if split: if_splits)
  have e1: "- 1022 \<le> e" by (simp add: e_def)
  have il: "e = ilog2 \<bar>r\<bar> \<or> e = - 1022" by (auto simp add: e_def)
  have 2: "pow2 e \<le> \<bar>r\<bar> \<or> e = - 1022" using il ilog2_bounds [OF a] by auto
  have v0: "0 \<le> v"
  proof -
    have "rat_of_int 0 \<le> \<bar>r\<bar> / pow2 (e - 52)" using pow2_pos [of "e - 52"] by simp
    then have "0 \<le> py_round (\<bar>r\<bar> / pow2 (e - 52))" by (rule py_round_ge)
    then show ?thesis unfolding v_def using pow2_pos [of "e - 52"] by simp
  qed
  have 3: "pow2 e \<le> \<bar>f\<bar> \<or> e = - 1022"
  proof (cases "e = - 1022")
    case True
    then show ?thesis by simp
  next
    case False
    then have "pow2 e \<le> \<bar>r\<bar>" using 2 by simp
    then have "pow2 e \<le> v" unfolding v_def by (rule significand_lower)
    then show ?thesis using v0 unfolding f by simp
  qed
  have 4: "(0 < r \<longrightarrow> 0 \<le> f) \<and> (r < 0 \<longrightarrow> f \<le> 0)" using v0 unfolding f by simp
  from e1 1 2 3 4 show ?thesis by blast
qed



lemma round_binary64_sign:
  assumes "round_binary64 r = Finite f"
  shows "(0 \<le> r \<longrightarrow> 0 \<le> f) \<and> (r \<le> 0 \<longrightarrow> f \<le> 0)"
proof (cases "r = 0")
  case True
  then have "f = 0" using assms(1) by (simp add: round_binary64_def)
  then show ?thesis by simp
next
  case False
  then show ?thesis using round_binary64_error [OF assms(1) False] by auto
qed


lemma round_binary64_eval:
  assumes "pow2 e0 \<le> \<bar>r\<bar>" and "\<bar>r\<bar> < pow2 (e0 + 1)" and "max e0 (- 1022) = e"
  shows "round_binary64 r =
     (if pow2 1024 \<le> of_int (py_round (\<bar>r\<bar> / pow2 (e - 52))) * pow2 (e - 52)
      then (if 0 < r then PosInf else NegInf)
      else Finite (if 0 < r then of_int (py_round (\<bar>r\<bar> / pow2 (e - 52))) * pow2 (e - 52)
                   else - (of_int (py_round (\<bar>r\<bar> / pow2 (e - 52))) * pow2 (e - 52))))"
proof -
  have "r \<noteq> 0" using assms(1) pow2_pos [of e0] by auto
  moreover have "max (ilog2 \<bar>r\<bar>) (- 1022) = e"
    using ilog2_unique [OF assms(1,2)] assms(3) by simp
  ultimately show ?thesis by (rule round_binary64_step)
qed

text \<open>A float is rounded to itself: \<open>m * 2 ^ k\<close> with \<open>\<bar>m\<bar> < 2 ^ 53\<close> and \<open>-1074 \<le> k \<le> 970\<close>.\<close>

lemma round_binary64_exact:
  assumes m: "\<bar>m\<bar> < 2 ^ 53" and k1: "- 1074 \<le> k" and k2: "k \<le> 970"
  shows "round_binary64 (of_int m * pow2 k) = Finite (of_int m * pow2 k)"
proof (cases "m = 0")
  case True
  then show ?thesis by (simp add: round_binary64_def)
next
  case False
  define n where "n = bit_length (nat \<bar>m\<bar>)"
  define r where "r = rat_of_int m * pow2 k"
  define e0 where "e0 = int n - 1 + k"
  define e where "e = max e0 (- 1022)"
  define j where "j = nat (k - e + 52)"
  have mpos: "0 < nat \<bar>m\<bar>" using False by simp
  have n0: "0 < n" unfolding n_def using mpos by (rule bit_length_pos)
  have "nat \<bar>m\<bar> < 2 ^ 53" using m by (simp add: nat_less_iff)
  then have n53: "n \<le> 53" unfolding n_def by (rule bit_length_le)
  have pk: "0 < pow2 k" by (rule pow2_pos)
  have a: "\<bar>r\<bar> = rat_of_nat (nat \<bar>m\<bar>) * pow2 k"
    using pk by (simp add: r_def abs_mult)
  have "rat_of_nat (2 ^ (n - 1)) \<le> rat_of_nat (nat \<bar>m\<bar>)"
    using bit_length_lower [OF mpos] unfolding n_def by (simp only: of_nat_le_iff)
  then have "rat_of_nat (2 ^ (n - 1)) * pow2 k \<le> rat_of_nat (nat \<bar>m\<bar>) * pow2 k"
    using pk by (intro mult_right_mono) simp_all
  moreover have "pow2 e0 = rat_of_nat (2 ^ (n - 1)) * pow2 k"
  proof -
    have "e0 = int (n - 1) + k" using n0 by (simp add: e0_def of_nat_diff)
    then show ?thesis by (simp only: pow2_add pow2_nat of_nat_power of_nat_numeral)
  qed
  ultimately have lo: "pow2 e0 \<le> \<bar>r\<bar>" unfolding a by simp
  have "rat_of_nat (nat \<bar>m\<bar>) < rat_of_nat (2 ^ n)"
    using bit_length_upper [of "nat \<bar>m\<bar>"] unfolding n_def by (simp only: of_nat_less_iff)
  then have "rat_of_nat (nat \<bar>m\<bar>) * pow2 k < rat_of_nat (2 ^ n) * pow2 k"
    using pk by (intro mult_strict_right_mono) simp_all
  moreover have "pow2 (e0 + 1) = rat_of_nat (2 ^ n) * pow2 k"
    using pow2_add [of "int n" k] by (simp add: e0_def pow2_nat)
  ultimately have hi: "\<bar>r\<bar> < pow2 (e0 + 1)" unfolding a by simp
  have "0 \<le> k - e + 52" using n53 k1 unfolding e_def e0_def by linarith
  then have jk: "int j = k - e + 52" unfolding j_def by (rule nat_0_le)
  have "pow2 k = pow2 (e - 52) * pow2 (int j)"
    using pow2_add [of "e - 52" "int j"] by (simp add: jk)
  then have pk': "pow2 k = pow2 (e - 52) * 2 ^ j" by (simp only: pow2_nat)
  have q: "0 < pow2 (e - 52)" by (rule pow2_pos)
  have "\<bar>r\<bar> / pow2 (e - 52) = rat_of_nat (nat \<bar>m\<bar>) * 2 ^ j"
    unfolding a pk' using q by simp
  also have "\<dots> = rat_of_int (int (nat \<bar>m\<bar>) * 2 ^ j)" by simp
  finally have "py_round (\<bar>r\<bar> / pow2 (e - 52)) = int (nat \<bar>m\<bar>) * 2 ^ j"
    by (simp only: py_round_of_int)
  then have v: "rat_of_int (py_round (\<bar>r\<bar> / pow2 (e - 52))) * pow2 (e - 52) = \<bar>r\<bar>"
    unfolding a pk' by simp
  have "e0 + 1 \<le> 1023" using n53 k2 by (simp add: e0_def)
  then have "pow2 (e0 + 1) \<le> pow2 1023" by (rule pow2_mono)
  then have "\<bar>r\<bar> < pow2 1024" using hi pow2_strict_mono [of 1023 1024] by linarith
  then have no: "\<not> pow2 1024 \<le> \<bar>r\<bar>" by simp
  have "round_binary64 r = Finite (if 0 < r then \<bar>r\<bar> else - \<bar>r\<bar>)"
    using round_binary64_eval [OF lo hi e_def [symmetric]] unfolding v using no by simp
  then show ?thesis unfolding r_def by (simp add: abs_if split: if_splits)
qed

lemma round_binary64_int: "\<bar>m\<bar> < 2 ^ 53 \<Longrightarrow> round_binary64 (of_int m) = Finite (of_int m)"
  using round_binary64_exact [of m 0] by (simp add: pow2_def)



section \<open>Tensor sizes\<close>

text \<open>
  Claim C6, as amended. For every tensor, \<^verbatim>\<open>numel\<close> is the product of the shape. For the
  kinds \<^verbatim>\<open>INT8\<close>, \<^verbatim>\<open>FP16\<close>, \<^verbatim>\<open>BF16\<close> and \<^verbatim>\<open>FP32\<close> the bytes per element are a Python
  integer and \<^verbatim>\<open>size_bytes\<close> is the floor of the product times the bytes per element, for
  every shape. For \<^verbatim>\<open>INT2\<close> and \<^verbatim>\<open>INT4\<close> the factor is the float \<open>0.25\<close> or \<open>0.5\<close>: the
  same holds when the shape holds positive integers and the element count converts to a
  float exactly, which every count below \<open>2 ^ 53\<close> does.
\<close>

theorem size_bytes_floor:
  "numel t = prod_list (shape t) \<and>
   (precision t \<in> {INT8, FP16, BF16, FP32} \<longrightarrow>
      size_bytes t =
        Inr \<lfloor>of_int (prod_list (shape t)) * num_value (bytes_per_element (precision t))\<rfloor>) \<and>
   (precision t \<in> {INT2, INT4} \<longrightarrow> (\<forall>d \<in> set (shape t). 0 < d) \<longrightarrow>
      float_of_int (prod_list (shape t)) = Inr (prod_list (shape t)) \<longrightarrow>
      size_bytes t =
        Inr \<lfloor>of_int (prod_list (shape t)) * num_value (bytes_per_element (precision t))\<rfloor>) \<and>
   ((\<forall>d \<in> set (shape t). 0 < d) \<longrightarrow> prod_list (shape t) < 2 ^ 53 \<longrightarrow>
      float_of_int (prod_list (shape t)) = Inr (prod_list (shape t)))"
proof (intro conjI impI)
  show n: "numel t = prod_list (shape t)" by (rule numel_prod_list)
  show "size_bytes t =
      Inr \<lfloor>of_int (prod_list (shape t)) * num_value (bytes_per_element (precision t))\<rfloor>"
    if "precision t \<in> {INT8, FP16, BF16, FP32}"
    using that by (auto simp add: size_bytes_def n floor_of_int_mult_numeral)
  show "size_bytes t =
      Inr \<lfloor>of_int (prod_list (shape t)) * num_value (bytes_per_element (precision t))\<rfloor>"
    if k: "precision t \<in> {INT2, INT4}" and pos: "\<forall>d \<in> set (shape t). 0 < d"
      and f: "float_of_int (prod_list (shape t)) = Inr (prod_list (shape t))"
  proof -
    have "0 < prod_list (shape t)" using pos by (rule prod_list_pos)
    then show ?thesis using k by (auto simp add: size_bytes_def n f py_trunc_def)
  qed
  show "float_of_int (prod_list (shape t)) = Inr (prod_list (shape t))"
    if pos: "\<forall>d \<in> set (shape t). 0 < d" and small: "prod_list (shape t) < 2 ^ 53"
  proof -
    have "0 < prod_list (shape t)" using pos by (rule prod_list_pos)
    then have "\<bar>prod_list (shape t)\<bar> < 2 ^ 53" using small by simp
    then show ?thesis by (rule float_of_int_exact)
  qed
qed

lemma bit_length_example2: "bit_length 36028797018963972 = 56"
  by (simp add: bit_length.simps)

lemma float_of_int_example2: "float_of_int 36028797018963972 = Inr 36028797018963968"
  by (simp add: float_of_int_def round_to_bits_def round_shift_def bit_length_example2)

text \<open>
  The example of the specification: shape \<open>(512, 2048)\<close> at 4-bit precision has
  \<open>1048576\<close> elements and takes \<open>524288\<close> bytes. At \<^verbatim>\<open>FP16\<close> a tensor of \<open>2 ^ 54 + 2\<close>
  elements takes twice as many bytes, with no rounding.
\<close>

theorem size_bytes_floor_witness:
  "numel \<lparr>name = ''expert-0.up_proj'', shape = [512, 2048], precision = INT4,
      quantization_scale = None, quantization_zero_point = None\<rparr> = 1048576 \<and>
   size_bytes \<lparr>name = ''expert-0.up_proj'', shape = [512, 2048], precision = INT4,
      quantization_scale = None, quantization_zero_point = None\<rparr> = Inr 524288 \<and>
   size_bytes \<lparr>name = ''w'', shape = [18014398509481986], precision = FP16,
      quantization_scale = None, quantization_zero_point = None\<rparr> = Inr 36028797018963972"
  using size_bytes_floor [of "\<lparr>name = ''expert-0.up_proj'', shape = [512, 2048],
      precision = INT4, quantization_scale = None, quantization_zero_point = None\<rparr>"]
    size_bytes_floor [of "\<lparr>name = ''w'', shape = [18014398509481986],
      precision = FP16, quantization_scale = None, quantization_zero_point = None\<rparr>"]
  by simp

text \<open>
  Claim C6 as stated fails at the 4-bit and 2-bit kinds for a large element count. A
  tensor of shape \<open>(18014398509481986,)\<close>, which is \<open>2 ^ 54 + 2\<close> elements, at 4-bit
  precision: the element count becomes the float \<open>2 ^ 54\<close> before it is multiplied by
  \<open>0.5\<close>, so \<^verbatim>\<open>size_bytes\<close> is \<open>9007199254740992\<close>, one less than the floor of the exact
  product. Likewise \<open>2 ^ 55 + 4\<close> elements at 2-bit precision.
\<close>

theorem size_bytes_floor_counterexample:
  "size_bytes \<lparr>name = ''w'', shape = [18014398509481986], precision = INT4,
      quantization_scale = None, quantization_zero_point = None\<rparr> = Inr 9007199254740992 \<and>
   \<lfloor>rat_of_int (prod_list [18014398509481986]) * num_value (bytes_per_element INT4)\<rfloor>
     = 9007199254740993 \<and>
   size_bytes \<lparr>name = ''w'', shape = [36028797018963972], precision = INT2,
      quantization_scale = None, quantization_zero_point = None\<rparr> = Inr 9007199254740992 \<and>
   \<lfloor>rat_of_int (prod_list [36028797018963972]) * num_value (bytes_per_element INT2)\<rfloor>
     = 9007199254740993"
  by (simp add: size_bytes_def numel_def float_of_int_example float_of_int_example2 py_trunc_def)

section \<open>Packing: buffer sizes and padding\<close>

lemma and_3_take_bit: "(x::int) AND 3 = take_bit 2 x"
  by (simp add: take_bit_eq_mask mask_eq_exp_minus_1)

lemma and_15_take_bit: "(x::int) AND 15 = take_bit 4 x"
  by (simp add: take_bit_eq_mask mask_eq_exp_minus_1)

lemma pack_step_4: "i < (n::nat) \<Longrightarrow> Suc ((n - (i + 4) + 3) div 4) = (n - i + 3) div 4"
proof -
  assume "i < n"
  then obtain d where n: "n = i + Suc d" by (auto simp add: less_iff_Suc_add)
  show ?thesis
  proof (cases "d < 3")
    case True
    then have "d = 0 \<or> d = 1 \<or> d = 2" by linarith
    then show ?thesis using n by auto
  next
    case False
    then obtain e where "d = e + 3" by (metis add.commute le_Suc_ex not_less)
    then show ?thesis using n by simp
  qed
qed

lemma pack_step_2: "i < (n::nat) \<Longrightarrow> Suc ((n - (i + 2) + 1) div 2) = (n - i + 1) div 2"
proof -
  assume "i < n"
  then obtain d where n: "n = i + Suc d" by (auto simp add: less_iff_Suc_add)
  show ?thesis
  proof (cases d)
    case 0
    then show ?thesis using n by simp
  next
    case (Suc e)
    then show ?thesis using n by simp
  qed
qed

lemma ceiling_div_nat:
  assumes "0 < k"
  shows "\<lceil>rat_of_nat n / of_nat k\<rceil> = int ((n + (k - 1)) div k)"
proof -
  define q where "q = (n + (k - 1)) div k"
  have "of_nat n \<le> (of_nat q :: rat) * of_nat k"
  proof -
    have "n + (k - 1) < q * k + k"
      unfolding q_def using assms
      by (metis add.commute dividend_less_times_div mult.commute)
    then have "n \<le> q * k" using assms by linarith
    then show ?thesis by (metis of_nat_le_iff of_nat_mult)
  qed
  then have up: "rat_of_nat n / of_nat k \<le> of_int (int q)"
    using assms by (simp add: divide_le_eq)
  have "(of_nat q :: rat) * of_nat k < of_nat n + of_nat k"
  proof -
    have "q * k \<le> n + (k - 1)" unfolding q_def by simp
    then have "q * k < n + k" using assms by linarith
    then show ?thesis by (metis of_nat_less_iff of_nat_mult of_nat_add)
  qed
  then have lo: "of_int (int q) - 1 < rat_of_nat n / of_nat k"
    using assms by (simp add: less_divide_eq algebra_simps)
  show ?thesis unfolding q_def [symmetric] using up lo by (simp add: ceiling_unique)
qed

lemma length_pack_int2: "length (pack_int2 vs i) = (length vs - i + 3) div 4"
proof (induction vs i rule: pack_int2.induct)
  case (1 vs i)
  show ?case
  proof (cases "i < length vs")
    case True
    then have "length (pack_int2 vs i) = Suc ((length vs - (i + 4) + 3) div 4)"
      using 1 by (subst pack_int2.simps) simp
    also have "\<dots> = (length vs - i + 3) div 4" using True by (rule pack_step_4)
    finally show ?thesis .
  next
    case False
    then show ?thesis by (subst pack_int2.simps) simp
  qed
qed

lemma length_pack_int4: "length (pack_int4 vs i) = (length vs - i + 1) div 2"
proof (induction vs i rule: pack_int4.induct)
  case (1 vs i)
  show ?case
  proof (cases "i < length vs")
    case True
    then have "length (pack_int4 vs i) = Suc ((length vs - (i + 2) + 1) div 2)"
      using 1 by (subst pack_int4.simps) simp
    also have "\<dots> = (length vs - i + 1) div 2" using True by (rule pack_step_2)
    finally show ?thesis .
  next
    case False
    then show ?thesis by (subst pack_int4.simps) simp
  qed
qed

text \<open>One 2-bit or 4-bit slot of a byte.\<close>

lemma slot_bounds:
  "0 \<le> push_bit k (take_bit w (v::int)) \<and> push_bit k (take_bit w v) < 2 ^ (k + w)"
  by (simp add: push_bit_eq_mult power_add)

lemma drop_bit_small: "0 \<le> (x::int) \<Longrightarrow> x < 2 ^ n \<Longrightarrow> drop_bit n x = 0"
  by (simp add: drop_bit_eq_div)

lemma or_bounds:
  "0 \<le> (x::int) \<and> x < 2 ^ m \<Longrightarrow> 0 \<le> y \<and> y < 2 ^ n \<Longrightarrow> m \<le> n \<Longrightarrow> 0 \<le> x OR y \<and> x OR y < 2 ^ n"
proof -
  assume x: "0 \<le> x \<and> x < 2 ^ m" and y: "0 \<le> y \<and> y < 2 ^ n" and mn: "m \<le> n"
  have "(2::int) ^ m \<le> 2 ^ n" using mn by simp
  with x have "x < 2 ^ n" by linarith
  with x y show ?thesis by (simp add: OR_upper)
qed

lemma int2_byte_bounds:
  assumes "length vs - i \<le> r"
  shows "0 \<le> int2_byte vs i \<and> int2_byte vs i < 2 ^ (2 * min r 4)"
proof -
  define s where "s j = (if i + j < length vs
      then push_bit (2 * j) (take_bit 2 (vs ! (i + j))) else 0)" for j
  have step: "(\<lambda>j byte. if i + j < length vs
        then byte OR push_bit (j * 2) ((vs ! (i + j)) AND 3) else byte) = (\<lambda>j byte. byte OR s j)"
    by (simp add: fun_eq_iff s_def and_3_take_bit mult.commute)
  have byte: "int2_byte vs i = ((s 0 OR s 1) OR s 2) OR s 3"
    unfolding int2_byte_def step by simp
  have sb: "0 \<le> s j \<and> s j < 2 ^ (2 * j + 2)" for j
    using slot_bounds [of "2 * j" 2] by (simp add: s_def)
  have sk: "s j = 0" if "r \<le> j" for j
  proof -
    have "\<not> i + j < length vs" using that assms by arith
    then show ?thesis by (simp add: s_def)
  qed
  have b0: "0 \<le> s 0 \<and> s 0 < 2 ^ 2" using sb [of 0] by simp
  have b1: "0 \<le> s 0 OR s 1 \<and> s 0 OR s 1 < 2 ^ 4"
    using or_bounds [OF b0, of "s 1" 4] sb [of 1] by simp
  have b2: "0 \<le> (s 0 OR s 1) OR s 2 \<and> (s 0 OR s 1) OR s 2 < 2 ^ 6"
    using or_bounds [OF b1, of "s 2" 6] sb [of 2] by simp
  have b3: "0 \<le> ((s 0 OR s 1) OR s 2) OR s 3 \<and> ((s 0 OR s 1) OR s 2) OR s 3 < 2 ^ 8"
    using or_bounds [OF b2, of "s 3" 8] sb [of 3] by simp
  consider "r = 0" | "r = 1" | "r = 2" | "r = 3" | "4 \<le> r" by arith
  then show ?thesis
  proof cases
    case 1 then show ?thesis using sk [of 0] sk [of 1] sk [of 2] sk [of 3] by (simp add: byte)
  next
    case 2 then show ?thesis using b0 sk [of 1] sk [of 2] sk [of 3] by (simp add: byte)
  next
    case 3 then show ?thesis using b1 sk [of 2] sk [of 3] by (simp add: byte)
  next
    case 4 then show ?thesis using b2 sk [of 3] by (simp add: byte)
  next
    case 5 then show ?thesis using b3 by (simp add: byte min_def)
  qed
qed

lemma int4_byte_bounds:
  assumes "length vs - i \<le> r"
  shows "0 \<le> int4_byte vs i \<and> int4_byte vs i < 2 ^ (4 * (if r \<le> 1 then 1 else 2))"
proof -
  have lo: "0 \<le> take_bit 4 (vs ! i) \<and> take_bit 4 (vs ! i) < 2 ^ 4"
    using take_bit_int_less_exp [of 4 "vs ! i"] by simp
  show ?thesis
  proof (cases "i + 1 < length vs")
    case True
    then have r: "\<not> r \<le> 1" using assms by arith
    have "int4_byte vs i = take_bit 4 (vs ! i) OR push_bit 4 (take_bit 4 (vs ! (i + 1)))"
      using True by (simp add: int4_byte_def and_15_take_bit)
    then show ?thesis
      using or_bounds [OF lo, of "push_bit 4 (take_bit 4 (vs ! (i + 1)))" 8]
        slot_bounds [of 4 4 "vs ! (i + 1)"] r by simp
  next
    case False
    then have "int4_byte vs i = take_bit 4 (vs ! i)"
      by (simp add: int4_byte_def and_15_take_bit)
    then show ?thesis using lo by (cases "r \<le> 1") simp_all
  qed
qed

text \<open>The last byte of the 2-bit packing, when the length is not a multiple of four.\<close>

lemma last_pack_int2:
  "i < length vs \<Longrightarrow>
   \<exists>k. k < length vs \<and> length vs - k \<le> 4 \<and> (length vs - k) mod 4 = (length vs - i) mod 4 \<and>
       last (pack_int2 vs i) = int2_byte vs k"
proof (induction vs i rule: pack_int2.induct)
  case (1 vs i)
  show ?case
  proof (cases "i + 4 < length vs")
    case True
    then obtain k where k: "k < length vs" "length vs - k \<le> 4"
        "(length vs - k) mod 4 = (length vs - (i + 4)) mod 4"
        "last (pack_int2 vs (i + 4)) = int2_byte vs k"
      using 1 by blast
    have ne: "pack_int2 vs (i + 4) \<noteq> []" using True by (subst pack_int2.simps) simp
    have "last (pack_int2 vs i) = last (pack_int2 vs (i + 4))"
      using 1(2) ne by (subst pack_int2.simps) simp
    moreover have "(length vs - (i + 4)) mod 4 = (length vs - i) mod 4"
    proof -
      have "length vs - i = (length vs - (i + 4)) + 4" using True by arith
      then show ?thesis by (simp only: mod_add_self2)
    qed
    ultimately show ?thesis using k by auto
  next
    case False
    then have "pack_int2 vs (i + 4) = []" by (subst pack_int2.simps) simp
    then have "last (pack_int2 vs i) = int2_byte vs i"
      using 1(2) by (subst pack_int2.simps) simp
    then show ?thesis using False 1(2) by (intro exI [of _ i]) simp
  qed
qed


lemma last_pack_int4:
  "i < length vs \<Longrightarrow>
   \<exists>k. k < length vs \<and> length vs - k \<le> 2 \<and> (length vs - k) mod 2 = (length vs - i) mod 2 \<and>
       last (pack_int4 vs i) = int4_byte vs k"
proof (induction vs i rule: pack_int4.induct)
  case (1 vs i)
  show ?case
  proof (cases "i + 2 < length vs")
    case True
    then obtain k where k: "k < length vs" "length vs - k \<le> 2"
        "(length vs - k) mod 2 = (length vs - (i + 2)) mod 2"
        "last (pack_int4 vs (i + 2)) = int4_byte vs k"
      using 1 by blast
    have ne: "pack_int4 vs (i + 2) \<noteq> []" using True by (subst pack_int4.simps) simp
    have "last (pack_int4 vs i) = last (pack_int4 vs (i + 2))"
      using 1(2) ne by (subst pack_int4.simps) simp
    moreover have "(length vs - (i + 2)) mod 2 = (length vs - i) mod 2"
    proof -
      have "length vs - i = (length vs - (i + 2)) + 2" using True by arith
      then show ?thesis by (simp only: mod_add_self2)
    qed
    ultimately show ?thesis using k by auto
  next
    case False
    then have "pack_int4 vs (i + 2) = []" by (subst pack_int4.simps) simp
    then have "last (pack_int4 vs i) = int4_byte vs i"
      using 1(2) by (subst pack_int4.simps) simp
    then show ?thesis using False 1(2) by (intro exI [of _ i]) simp
  qed
qed

lemma pack_int2_padded:
  assumes "length vs mod 4 \<noteq> 0"
  shows "drop_bit (2 * (length vs mod 4)) (last (pack_int2 vs 0)) = 0"
proof -
  from assms have "0 < length vs" by (cases vs) simp_all
  then obtain k where k: "k < length vs" "length vs - k \<le> 4"
      "(length vs - k) mod 4 = length vs mod 4" "last (pack_int2 vs 0) = int2_byte vs k"
    using last_pack_int2 [of 0 vs] by auto
  have "length vs - k \<noteq> 4" using k(3) assms by auto
  with k(2) have lt: "length vs - k < 4" by simp
  with k(3) have r: "length vs - k = length vs mod 4" by simp
  have "length vs mod 4 \<le> 4" by simp
  then have "min (length vs mod 4) 4 = length vs mod 4" by (rule min_absorb1)
  then have "0 \<le> int2_byte vs k \<and> int2_byte vs k < 2 ^ (2 * (length vs mod 4))"
    using int2_byte_bounds [of vs k "length vs mod 4"] r by simp
  then show ?thesis using k(4) by (simp add: drop_bit_small)
qed

lemma pack_int4_padded:
  assumes "odd (length vs)"
  shows "drop_bit 4 (last (pack_int4 vs 0)) = 0"
proof -
  from assms have "0 < length vs" by (cases vs) simp_all
  then obtain k where k: "k < length vs" "length vs - k \<le> 2"
      "(length vs - k) mod 2 = length vs mod 2" "last (pack_int4 vs 0) = int4_byte vs k"
    using last_pack_int4 [of 0 vs] by auto
  have "length vs mod 2 = 1" using assms by (simp add: odd_iff_mod_2_eq_one)
  with k(3) have "length vs - k \<noteq> 2" by auto
  with k(2) have "length vs - k \<le> 1" by simp
  then have "0 \<le> int4_byte vs k \<and> int4_byte vs k < 2 ^ 4"
    using int4_byte_bounds [of vs k 1] by simp
  then show ?thesis using k(4) by (simp add: drop_bit_small)
qed

text \<open>
  Claim C7. For every list of integers the 2-bit packing takes \<open>ceil(len / 4)\<close> bytes
  and the 4-bit packing \<open>ceil(len / 2)\<close> bytes; the 8-bit packing of quantized values,
  which lie in \<open>0 .. 255\<close>, takes \<open>len\<close> bytes. The slots of the last byte that no value
  fills are zero: the bits above the \<open>len mod 4\<close> used 2-bit slots, and the high nibble
  after an odd number of 4-bit values.
\<close>

theorem pack_values_size:
  "(\<exists>b. pack_values vs INT2 = Inr b \<and> int (length b) = \<lceil>rat_of_nat (length vs) / 4\<rceil> \<and>
        (length vs mod 4 \<noteq> 0 \<longrightarrow> drop_bit (2 * (length vs mod 4)) (last b) = 0)) \<and>
   (\<exists>b. pack_values vs INT4 = Inr b \<and> int (length b) = \<lceil>rat_of_nat (length vs) / 2\<rceil> \<and>
        (odd (length vs) \<longrightarrow> drop_bit 4 (last b) = 0)) \<and>
   ((\<forall>v \<in> set vs. 0 \<le> v \<and> v < 2 ^ bit_width INT8) \<longrightarrow>
      (\<exists>b. pack_values vs INT8 = Inr b \<and> length b = length vs))"
proof (intro conjI)
  have "int (length (pack_int2 vs 0)) = \<lceil>rat_of_nat (length vs) / 4\<rceil>"
    using ceiling_div_nat [of 4 "length vs"] by (simp add: length_pack_int2)
  then show "\<exists>b. pack_values vs INT2 = Inr b \<and> int (length b) = \<lceil>rat_of_nat (length vs) / 4\<rceil> \<and>
        (length vs mod 4 \<noteq> 0 \<longrightarrow> drop_bit (2 * (length vs mod 4)) (last b) = 0)"
    using pack_int2_padded [of vs] by simp
next
  have "int (length (pack_int4 vs 0)) = \<lceil>rat_of_nat (length vs) / 2\<rceil>"
    using ceiling_div_nat [of 2 "length vs"] by (simp add: length_pack_int4)
  then show "\<exists>b. pack_values vs INT4 = Inr b \<and> int (length b) = \<lceil>rat_of_nat (length vs) / 2\<rceil> \<and>
        (odd (length vs) \<longrightarrow> drop_bit 4 (last b) = 0)"
    using pack_int4_padded [of vs] by simp
next
  show "(\<forall>v \<in> set vs. 0 \<le> v \<and> v < 2 ^ bit_width INT8) \<longrightarrow>
      (\<exists>b. pack_values vs INT8 = Inr b \<and> length b = length vs)"
    by (simp add: py_bytes_def list_all_iff)
qed

text \<open>Five 2-bit values take two bytes, three 4-bit values two bytes, three bytes three.\<close>

lemma pack_int2_example: "pack_int2 [1, 2, 3, 0, 2] 0 = [57, 2]"
  by (simp add: pack_int2.simps int2_byte_def)

lemma pack_int4_example: "pack_int4 [1, 2, 15] 0 = [33, 15]"
  by (simp add: pack_int4.simps int4_byte_def)

theorem pack_values_size_witness:
  "pack_values [1, 2, 3, 0, 2] INT2 = Inr [57, 2] \<and>
   pack_values [1, 2, 15] INT4 = Inr [33, 15] \<and>
   pack_values [0, 255, 7] INT8 = Inr [0, 255, 7]"
  using pack_values_size [of "[1, 2, 3, 0, 2]"] pack_values_size [of "[1, 2, 15]"]
    pack_values_size [of "[0, 255, 7]"]
  by (simp add: pack_int2_example pack_int4_example py_bytes_def)

text \<open>\<^verbatim>\<open>struct.pack\<close> on concrete integers.\<close>

lemmas struct_pack_eval = struct_pack_e_def struct_pack_f_def float_of_int_def
  round_to_bits_def round_shift_def ieee_encode_def ieee_infinity_def le_bytes_def
  bit_length.simps Let_def upt_rec

lemma struct_pack_f_0: "struct_pack_f 0 = Inr [0, 0, 0, 0]"
  by (simp add: struct_pack_eval)

lemma struct_pack_f_1: "struct_pack_f 1 = Inr [0, 0, 128, 63]"
  by (simp add: struct_pack_eval)

lemma struct_pack_f_qmax: "struct_pack_f 4294967295 = Inr [0, 0, 128, 79]"
  by (simp add: struct_pack_eval)

lemma struct_pack_e_0: "struct_pack_e 0 = Inr [0, 0]"
  by (simp add: struct_pack_eval)

lemma struct_pack_e_1: "struct_pack_e 1 = Inr [0, 60]"
  by (simp add: struct_pack_eval)

lemma struct_pack_e_1024: "struct_pack_e 1024 = Inr [0, 100]"
  by (simp add: struct_pack_eval)

lemma struct_pack_e_65519: "struct_pack_e 65519 = Inr [255, 123]"
  by (simp add: struct_pack_eval)

lemma struct_pack_e_65520: "struct_pack_e 65520 = Inl StructError"
  by (simp add: struct_pack_eval)


lemma struct_pack_f_big: "struct_pack_f (2 ^ 128) = Inr [0, 0, 128, 127]"
  by (simp add: struct_pack_eval)

lemma struct_pack_f_negbig: "struct_pack_f (- (2 ^ 128)) = Inr [0, 0, 128, 255]"
  by (simp add: struct_pack_eval)

section \<open>Quantization: empty and degenerate input\<close>


lemma qmax_small: "\<bar>push_bit (bit_width p) 1 - 1 :: int\<bar> < 2 ^ 53"
  by (cases p) (simp_all add: push_bit_eq_mult)

lemma float_of_int_qmax:
  "float_of_int (push_bit (bit_width p) 1 - 1) = Inr (push_bit (bit_width p) 1 - 1)"
  using qmax_small by (rule float_of_int_exact)

lemma qmax_rat: "(2::rat) ^ bit_width p \<noteq> 1"
  by (cases p) simp_all


lemma round_binary64_0: "round_binary64 0 = Finite 0"
  by (simp add: round_binary64_def)

lemma compute_scale_zp_degenerate: "compute_scale_zp m m p = Inl ZeroDivisionError"
proof -
  have "float_truediv_int (float_sub m m) (push_bit (bit_width p) 1 - 1) = Inr (Finite 0)"
    unfolding float_truediv_int_def float_of_int_qmax float_sub_def
    by (simp add: round_binary64_0 qmax_rat)
  then show ?thesis
    unfolding compute_scale_zp_def Let_def diff_zero by simp
qed

text \<open>
  Claim C10. For every precision kind, \<^verbatim>\<open>quantize_tensor\<close> applied to the empty list
  returns the empty byte buffer with scale \<open>1.0\<close> and zero point \<open>0\<close>; it does not raise.
\<close>

theorem quantize_tensor_empty: "quantize_tensor [] p = Inr ([], Finite 1, 0)"
  by (simp add: quantize_tensor_def)





lemma py_min_Inr_nonempty: "py_min vs = Inr m \<Longrightarrow> vs \<noteq> []"
  by (cases vs) auto

text \<open>
  Claim C2 asks that equal bounds are special-cased. The code has no such case: when the
  minimum of a non-empty list equals its maximum, the scale is \<open>0\<close> and the division
  \<^verbatim>\<open>min_val / scale\<close> in \<^verbatim>\<open>compute_scale_zp\<close> raises \<^verbatim>\<open>ZeroDivisionError\<close>, for every
  precision kind, and \<^verbatim>\<open>quantize_tensor\<close> raises with it.
\<close>

theorem degenerate_range_raises:
  assumes "py_min vs = Inr m" and "py_max vs = Inr m"
  shows "compute_scale_zp m m p = Inl ZeroDivisionError \<and>
         quantize_tensor vs p = Inl ZeroDivisionError"
proof -
  have "vs \<noteq> []" using assms(1) by (rule py_min_Inr_nonempty)
  then show ?thesis
    using assms by (simp add: quantize_tensor_def compute_scale_zp_degenerate)
qed

text \<open>The constant tensor \<open>[1.0, 1.0, 1.0]\<close> at 8-bit precision.\<close>

theorem degenerate_range_raises_witness:
  "py_min [1, 1, 1] = Inr 1 \<and> py_max [1, 1, 1] = Inr 1 \<and>
   compute_scale_zp 1 1 INT8 = Inl ZeroDivisionError \<and>
   quantize_tensor [1, 1, 1] INT8 = Inl ZeroDivisionError"
  using degenerate_range_raises [of "[1, 1, 1]" 1 INT8] by simp

section \<open>Quantization: the round trip\<close>















text \<open>Evaluation of the quantizer on concrete floats.\<close>

lemmas quantize_eval = quantize_tensor_def compute_scale_zp_def float_sub_def
  float_truediv_int_def int_sub_float_def quantize_value_def float_of_int_exact py_round_def
  Let_def


















lemma pow2_simps [simp]: "0 < pow2 k" "0 \<le> pow2 k" "\<not> pow2 k < 0" "\<not> pow2 k \<le> 0" "pow2 k \<noteq> 0"
  using pow2_pos [of k] by simp_all



















section \<open>Packing of the float kinds\<close>

lemma quantize_tensor_Inr:
  assumes "vs \<noteq> []"
  shows "quantize_tensor vs p = Inr (packed, scale, zp) \<longleftrightarrow>
         (\<exists>mn mx qs. py_min vs = Inr mn \<and> py_max vs = Inr mx \<and>
           compute_scale_zp mn mx p = Inr (scale, zp) \<and>
           quantize_values scale zp p vs = Inr qs \<and> pack_values qs p = Inr packed)"
  using assms by (auto simp add: quantize_tensor_def split: sum.splits prod.splits)

lemma quantize_value_iff:
  "quantize_value scale zp p v = Inr q \<longleftrightarrow>
     (\<exists>x. float_truediv (Finite v) scale = Inr (Finite x) \<and>
          q = max 0 (min (2 ^ bit_width p - 1) (py_round x + zp)))"
proof (cases "float_truediv (Finite v) scale")
  case (Inl e)
  then show ?thesis by (simp add: quantize_value_def)
next
  case (Inr y)
  then show ?thesis
    by (cases y) (auto simp add: quantize_value_def Let_def push_bit_eq_mult)
qed

lemma quantize_values_iff:
  "quantize_values scale zp p vs = Inr qs \<longleftrightarrow>
     list_all2 (\<lambda>v q. quantize_value scale zp p v = Inr q) vs qs"
proof (induction vs arbitrary: qs)
  case Nil
  then show ?case by auto
next
  case (Cons v vs)
  show ?case
  proof (cases qs)
    case Nil
    then show ?thesis by (simp split: sum.splits)
  next
    case (Cons q qs')
    then show ?thesis using Cons.IH [of qs'] by (auto split: sum.splits)
  qed
qed

lemma quantize_values_nth:
  "quantize_values scale zp p vs = Inr qs \<longleftrightarrow>
     length qs = length vs \<and>
     (\<forall>i < length vs. \<exists>x. float_truediv (Finite (vs ! i)) scale = Inr (Finite x) \<and>
          qs ! i = max 0 (min (2 ^ bit_width p - 1) (py_round x + zp)))"
  unfolding quantize_values_iff list_all2_conv_all_nth quantize_value_iff by auto

lemma pack_each_length:
  assumes "\<And>v x. f v = Inr x \<Longrightarrow> length x = k"
  shows "pack_each f qs = Inr b \<Longrightarrow> length b = k * length qs"
proof (induction qs arbitrary: b)
  case Nil
  then show ?case by simp
next
  case (Cons q qs)
  then obtain x bs where x: "f q = Inr x" and bs: "pack_each f qs = Inr bs" and b: "b = x @ bs"
    by (auto split: sum.splits)
  have "length x = k" using x by (rule assms)
  moreover have "length bs = k * length qs" using bs by (rule Cons.IH)
  ultimately show ?case using b by simp
qed

lemma struct_pack_e_length: "struct_pack_e v = Inr x \<Longrightarrow> length x = 2"
  by (auto simp add: struct_pack_e_def le_bytes_def split: sum.splits option.splits)

lemma struct_pack_f_length: "struct_pack_f v = Inr x \<Longrightarrow> length x = 4"
  by (auto simp add: struct_pack_f_def le_bytes_def split: sum.splits option.splits)

lemma pack_each_e_length: "pack_each struct_pack_e qs = Inr b \<Longrightarrow> length b = 2 * length qs"
  using struct_pack_e_length by (rule pack_each_length)

lemma pack_each_f_length: "pack_each struct_pack_f qs = Inr b \<Longrightarrow> length b = 4 * length qs"
  using struct_pack_f_length by (rule pack_each_length)

text \<open>
  Claim C5. For the \<^verbatim>\<open>FP16\<close>, \<^verbatim>\<open>BF16\<close> and \<^verbatim>\<open>FP32\<close> kinds and a non-empty list,
  \<^verbatim>\<open>quantize_tensor\<close> returns a buffer exactly when the scale and zero point are
  computed, every value \<open>v\<close> has a finite quotient \<open>v / scale\<close>, and the integers
  \<open>round(v / scale) + zp\<close> clamped into \<open>0 .. 2 ^ bit_width - 1\<close> are all accepted by
  \<^verbatim>\<open>struct.pack\<close>; the buffer is then these integers packed one after the other as
  floats of 2 bytes (\<^verbatim>\<open>FP16\<close>, \<^verbatim>\<open>BF16\<close>) or 4 bytes (\<^verbatim>\<open>FP32\<close>). The input floats are
  not encoded.
\<close>

theorem float_kinds_pack_quantized_integers:
  assumes kind: "p = FP16 \<or> p = BF16 \<or> p = FP32" and ne: "vs \<noteq> []"
  shows "quantize_tensor vs p = Inr (packed, scale, zp) \<longleftrightarrow>
     (\<exists>mn mx qs. py_min vs = Inr mn \<and> py_max vs = Inr mx \<and>
        compute_scale_zp mn mx p = Inr (scale, zp) \<and>
        length qs = length vs \<and>
        (\<forall>i < length vs. \<exists>x. float_truediv (Finite (vs ! i)) scale = Inr (Finite x) \<and>
           qs ! i = max 0 (min (2 ^ bit_width p - 1) (py_round x + zp))) \<and>
        (\<forall>q \<in> set qs. 0 \<le> q \<and> q \<le> 2 ^ bit_width p - 1) \<and>
        pack_each (if p = FP32 then struct_pack_f else struct_pack_e) qs = Inr packed \<and>
        length packed = (bit_width p div 8) * length vs)"
  (is "?L \<longleftrightarrow> ?R")
proof
  assume ?L
  then obtain mn mx qs where m: "py_min vs = Inr mn" "py_max vs = Inr mx"
    and c: "compute_scale_zp mn mx p = Inr (scale, zp)"
    and q: "quantize_values scale zp p vs = Inr qs" and pk: "pack_values qs p = Inr packed"
    unfolding quantize_tensor_Inr [OF ne] by blast
  have len: "length qs = length vs"
    and nth: "\<forall>i < length vs. \<exists>x. float_truediv (Finite (vs ! i)) scale = Inr (Finite x) \<and>
          qs ! i = max 0 (min (2 ^ bit_width p - 1) (py_round x + zp))"
    using q unfolding quantize_values_nth by simp_all
  have w: "(1::int) \<le> 2 ^ bit_width p" by simp
  have rng: "\<forall>q \<in> set qs. 0 \<le> q \<and> q \<le> 2 ^ bit_width p - 1"
  proof
    fix q assume "q \<in> set qs"
    then obtain i where i: "i < length vs" "q = qs ! i" using len by (auto simp add: in_set_conv_nth)
    then obtain x where "q = max 0 (min (2 ^ bit_width p - 1) (py_round x + zp))"
      using nth by auto
    then show "0 \<le> q \<and> q \<le> 2 ^ bit_width p - 1" using w by simp
  qed
  have pe: "pack_each (if p = FP32 then struct_pack_f else struct_pack_e) qs = Inr packed"
    using kind pk by auto
  have "length packed = (bit_width p div 8) * length qs"
    using kind pk by (auto dest: pack_each_e_length pack_each_f_length)
  then show ?R using m c len nth rng pe by auto
next
  assume ?R
  then obtain mn mx qs where m: "py_min vs = Inr mn" "py_max vs = Inr mx"
    and c: "compute_scale_zp mn mx p = Inr (scale, zp)"
    and len: "length qs = length vs"
    and nth: "\<forall>i < length vs. \<exists>x. float_truediv (Finite (vs ! i)) scale = Inr (Finite x) \<and>
          qs ! i = max 0 (min (2 ^ bit_width p - 1) (py_round x + zp))"
    and pe: "pack_each (if p = FP32 then struct_pack_f else struct_pack_e) qs = Inr packed"
    by blast
  have q: "quantize_values scale zp p vs = Inr qs"
    unfolding quantize_values_nth using len nth by simp
  have pk: "pack_values qs p = Inr packed" using kind pe by auto
  show ?L unfolding quantize_tensor_Inr [OF ne] using m c q pk by blast
qed

lemma rb_131070: "round_binary64 131070 = Finite 131070"
  using round_binary64_int [of 131070] by simp

lemma rb_2: "round_binary64 2 = Finite 2"
  using round_binary64_int [of 2] by simp

lemma rb_m65551: "round_binary64 (- 65551) = Finite (- 65551)"
  using round_binary64_int [of "- 65551"] by simp

lemma rb_65551: "round_binary64 65551 = Finite 65551"
  using round_binary64_int [of 65551] by simp

lemma rb_m64527: "round_binary64 (- 64527) = Finite (- 64527)"
  using round_binary64_int [of "- 64527"] by simp

lemma rb_m16: "round_binary64 (- 16) = Finite (- 16)"
  using round_binary64_int [of "- 16"] by simp

lemma rb_8589934590: "round_binary64 8589934590 = Finite 8589934590"
  using round_binary64_int [of 8589934590] by simp

lemma rb_4294967295: "round_binary64 4294967295 = Finite 4294967295"
  using round_binary64_int [of 4294967295] by simp

lemma compute_scale_zp_example7:
  "compute_scale_zp (- 131102) (- 32) FP16 = Inr (Finite 2, 65535) \<and>
   compute_scale_zp (- 131102) (- 32) BF16 = Inr (Finite 2, 65535)"
  by (simp add: quantize_eval rb_131070 rb_2 rb_m65551 rb_65551)

lemma compute_scale_zp_example8: "compute_scale_zp 0 8589934590 FP32 = Inr (Finite 2, 0)"
  by (simp add: quantize_eval rb_8589934590 rb_2 round_binary64_0)

lemma struct_pack_e_1008: "struct_pack_e 1008 = Inr [224, 99]"
  by (simp add: struct_pack_eval)

lemma struct_pack_e_m32: "struct_pack_e (- 32) = Inr [0, 208]"
  by (simp add: struct_pack_eval)

lemma struct_pack_f_input: "struct_pack_f 8589934590 = Inr [0, 0, 0, 80]"
  by (simp add: struct_pack_eval)

lemma pack_each_example7:
  "pack_each struct_pack_e [0, 1008, 65519] = Inr [0, 0, 224, 99, 255, 123]"
  by (simp add: struct_pack_e_0 struct_pack_e_1008 struct_pack_e_65519)

lemma pack_each_example8:
  "pack_each struct_pack_f [0, 4294967295] = Inr [0, 0, 0, 0, 0, 0, 128, 79]"
  by (simp add: struct_pack_f_0 struct_pack_f_qmax)

lemma quantized_example7:
  "\<forall>i < length [- 131102, - 129054, - 32 :: rat].
     \<exists>x. float_truediv (Finite ([- 131102, - 129054, - 32] ! i)) (Finite 2) = Inr (Finite x) \<and>
         [0, 1008, 65519] ! i = max 0 (min (2 ^ 16 - 1) (py_round x + 65535))"
  by (simp add: All_less_Suc rb_m65551 rb_m64527 rb_m16 py_round_def)

lemma quantized_example8:
  "\<forall>i < length [0, 8589934590 :: rat].
     \<exists>x. float_truediv (Finite ([0, 8589934590] ! i)) (Finite 2) = Inr (Finite x) \<and>
         [0, 4294967295] ! i = max 0 (min (2 ^ 32 - 1) (py_round x + 0))"
  by (simp add: All_less_Suc rb_4294967295 round_binary64_0 py_round_def)

text \<open>
  The values \<open>[-131102.0, -129054.0, -32.0]\<close> at \<^verbatim>\<open>FP16\<close> and \<^verbatim>\<open>BF16\<close>: the scale is
  \<open>2.0\<close>, the zero point \<open>65535\<close>, the integers are \<open>0\<close>, \<open>1008\<close> and \<open>65519\<close>, and the
  last two bytes are the binary16 pattern \<open>0x7BFF\<close> of \<open>65504.0\<close>, not the pattern
  \<open>0xD000\<close> of the input \<open>-32.0\<close>. The values \<open>[0.0, 8589934590.0]\<close> at \<^verbatim>\<open>FP32\<close>: the
  integers are \<open>0\<close> and \<open>4294967295\<close>, and the last four bytes are the binary32 pattern
  \<open>0x4F800000\<close> of \<open>4294967296.0\<close>, not the pattern \<open>0x50000000\<close> of the input.
\<close>

theorem float_kinds_pack_quantized_integers_witness:
  "quantize_tensor [- 131102, - 129054, - 32] FP16 =
     Inr ([0, 0, 224, 99, 255, 123], Finite 2, 65535) \<and>
   quantize_tensor [- 131102, - 129054, - 32] BF16 =
     Inr ([0, 0, 224, 99, 255, 123], Finite 2, 65535) \<and>
   quantize_tensor [0, 8589934590] FP32 = Inr ([0, 0, 0, 0, 0, 0, 128, 79], Finite 2, 0) \<and>
   pack_each struct_pack_e [0, 1008, 65519] = Inr [0, 0, 224, 99, 255, 123] \<and>
   pack_each struct_pack_f [0, 4294967295] = Inr [0, 0, 0, 0, 0, 0, 128, 79] \<and>
   struct_pack_e (- 32) = Inr [0, 208] \<and>
   struct_pack_f 8589934590 = Inr [0, 0, 0, 80]"
proof -
  have a: "quantize_tensor [- 131102, - 129054, - 32] FP16 =
      Inr ([0, 0, 224, 99, 255, 123], Finite 2, 65535)"
  proof (rule float_kinds_pack_quantized_integers [THEN iffD2])
    show "FP16 = FP16 \<or> FP16 = BF16 \<or> FP16 = FP32" by simp
    show "[- 131102, - 129054, - 32 :: rat] \<noteq> []" by simp
    show "\<exists>mn mx qs. py_min [- 131102, - 129054, - 32] = Inr mn \<and>
        py_max [- 131102, - 129054, - 32] = Inr mx \<and>
        compute_scale_zp mn mx FP16 = Inr (Finite 2, 65535) \<and>
        length qs = length [- 131102, - 129054, - 32 :: rat] \<and>
        (\<forall>i < length [- 131102, - 129054, - 32 :: rat].
           \<exists>x. float_truediv (Finite ([- 131102, - 129054, - 32] ! i)) (Finite 2) = Inr (Finite x) \<and>
             qs ! i = max 0 (min (2 ^ bit_width FP16 - 1) (py_round x + 65535))) \<and>
        (\<forall>q \<in> set qs. 0 \<le> q \<and> q \<le> 2 ^ bit_width FP16 - 1) \<and>
        pack_each (if FP16 = FP32 then struct_pack_f else struct_pack_e) qs =
          Inr [0, 0, 224, 99, 255, 123] \<and>
        length [0, 0, 224, 99, 255, 123 :: int] =
          (bit_width FP16 div 8) * length [- 131102, - 129054, - 32 :: rat]"
      using compute_scale_zp_example7 quantized_example7 pack_each_example7
      by (intro exI [of _ "- 131102"] exI [of _ "- 32"] exI [of _ "[0, 1008, 65519]"]) simp
  qed
  have b: "quantize_tensor [- 131102, - 129054, - 32] BF16 =
      Inr ([0, 0, 224, 99, 255, 123], Finite 2, 65535)"
  proof (rule float_kinds_pack_quantized_integers [THEN iffD2])
    show "BF16 = FP16 \<or> BF16 = BF16 \<or> BF16 = FP32" by simp
    show "[- 131102, - 129054, - 32 :: rat] \<noteq> []" by simp
    show "\<exists>mn mx qs. py_min [- 131102, - 129054, - 32] = Inr mn \<and>
        py_max [- 131102, - 129054, - 32] = Inr mx \<and>
        compute_scale_zp mn mx BF16 = Inr (Finite 2, 65535) \<and>
        length qs = length [- 131102, - 129054, - 32 :: rat] \<and>
        (\<forall>i < length [- 131102, - 129054, - 32 :: rat].
           \<exists>x. float_truediv (Finite ([- 131102, - 129054, - 32] ! i)) (Finite 2) = Inr (Finite x) \<and>
             qs ! i = max 0 (min (2 ^ bit_width BF16 - 1) (py_round x + 65535))) \<and>
        (\<forall>q \<in> set qs. 0 \<le> q \<and> q \<le> 2 ^ bit_width BF16 - 1) \<and>
        pack_each (if BF16 = FP32 then struct_pack_f else struct_pack_e) qs =
          Inr [0, 0, 224, 99, 255, 123] \<and>
        length [0, 0, 224, 99, 255, 123 :: int] =
          (bit_width BF16 div 8) * length [- 131102, - 129054, - 32 :: rat]"
      using compute_scale_zp_example7 quantized_example7 pack_each_example7
      by (intro exI [of _ "- 131102"] exI [of _ "- 32"] exI [of _ "[0, 1008, 65519]"]) simp
  qed
  have c: "quantize_tensor [0, 8589934590] FP32 = Inr ([0, 0, 0, 0, 0, 0, 128, 79], Finite 2, 0)"
  proof (rule float_kinds_pack_quantized_integers [THEN iffD2])
    show "FP32 = FP16 \<or> FP32 = BF16 \<or> FP32 = FP32" by simp
    show "[0, 8589934590 :: rat] \<noteq> []" by simp
    show "\<exists>mn mx qs. py_min [0, 8589934590] = Inr mn \<and>
        py_max [0, 8589934590] = Inr mx \<and>
        compute_scale_zp mn mx FP32 = Inr (Finite 2, 0) \<and>
        length qs = length [0, 8589934590 :: rat] \<and>
        (\<forall>i < length [0, 8589934590 :: rat].
           \<exists>x. float_truediv (Finite ([0, 8589934590] ! i)) (Finite 2) = Inr (Finite x) \<and>
             qs ! i = max 0 (min (2 ^ bit_width FP32 - 1) (py_round x + 0))) \<and>
        (\<forall>q \<in> set qs. 0 \<le> q \<and> q \<le> 2 ^ bit_width FP32 - 1) \<and>
        pack_each (if FP32 = FP32 then struct_pack_f else struct_pack_e) qs =
          Inr [0, 0, 0, 0, 0, 0, 128, 79] \<and>
        length [0, 0, 0, 0, 0, 0, 128, 79 :: int] =
          (bit_width FP32 div 8) * length [0, 8589934590 :: rat]"
      using compute_scale_zp_example8 quantized_example8 pack_each_example8
      by (intro exI [of _ 0] exI [of _ 8589934590] exI [of _ "[0, 4294967295]"]) simp
  qed
  from a b c show ?thesis
    using pack_each_example7 pack_each_example8 struct_pack_e_m32 struct_pack_f_input
    by (simp only: simp_thms)
qed

text \<open>
  Claim C4 asks for different bit layouts for \<^verbatim>\<open>FP16\<close> and \<^verbatim>\<open>BF16\<close>. The code packs
  both with the format \<^verbatim>\<open>'e'\<close>: for every list the two buffers are the same. The
  integer \<open>1\<close> is packed as the binary16 pattern \<open>0x3C00\<close> for both kinds, where the
  upper 16 bits of its binary32 pattern are \<open>0x3F80\<close>.
\<close>

theorem bf16_packed_as_fp16:
  "pack_values qs BF16 = pack_values qs FP16 \<and>
   pack_values [1] BF16 = Inr [0, 60] \<and>
   pack_values [1] FP16 = Inr [0, 60] \<and>
   spec_pack_bf16 1 = Inr [128, 63]"
  by (simp add: struct_pack_e_1 spec_pack_bf16_def struct_pack_f_1)

lemmas str_eval = is_space_def upper_char_def upper_def strip_def endswith_def startswith_def
  is_digit_def digit_value_def digits_value_def count_digits_def

section \<open>Deployment plan: the aggregates\<close>

lemma collect_experts_concat: "collect_experts categories = concat (map snd categories)"
proof -
  have "fold (\<lambda>(category, cat_experts) all_experts. all_experts @ cat_experts) cs acc
      = acc @ concat (map snd cs)" for cs :: "(string \<times> string list) list" and acc
    by (induction cs arbitrary: acc) (auto simp add: case_prod_beta)
  then show ?thesis by (simp add: collect_experts_def)
qed

lemma expand_patterns_concat:
  "expand_patterns patterns all_experts es =
     es @ concat (map (\<lambda>pattern. expand_expert_pattern pattern all_experts) patterns)"
  unfolding expand_patterns_def by (induction patterns arbitrary: es) simp_all

lemma memory_usage_sum:
  "memory_usage config es used = Inr used' \<Longrightarrow>
   \<exists>bs. map (\<lambda>e. total_bytes (build_expert config e)) es = map Inr bs \<and>
        used' = used + sum_list bs"
proof (induction es arbitrary: used)
  case Nil
  then show ?case by simp
next
  case (Cons e es)
  then obtain b where b: "total_bytes (build_expert config e) = Inr b"
    and r: "memory_usage config es (used + b) = Inr used'"
    by (auto split: sum.splits)
  from Cons.IH [OF r] obtain bs
    where "map (\<lambda>e. total_bytes (build_expert config e)) es = map Inr bs"
      and "used' = used + b + sum_list bs" by blast
  with b show ?case by (intro exI [of _ "b # bs"]) simp
qed

lemma allocate_node_Inr:
  assumes "allocate_node config all_experts node = Inr alloc"
  shows "experts alloc =
           concat (map (\<lambda>pattern. expand_expert_pattern pattern all_experts) (node_experts node))"
    and "\<exists>bs. map (\<lambda>e. total_bytes (build_expert config e)) (experts alloc) = map Inr bs \<and>
              memory_used alloc = sum_list bs"
    and "parse_memory (case node_gpu node of None \<Rightarrow> ''8GB''
           | Some g \<Rightarrow> (case gpu_memory g of None \<Rightarrow> ''8GB'' | Some m \<Rightarrow> m))
         = Inr (memory_budget alloc)"
proof -
  define gpu where "gpu = (case node_gpu node of
      None \<Rightarrow> \<lparr>gpu_device = None, gpu_memory = None\<rparr> | Some g \<Rightarrow> g)"
  define es where "es = expand_patterns (node_experts node) all_experts []"
  from assms obtain budget used
    where b: "parse_memory (case gpu_memory gpu of None \<Rightarrow> ''8GB'' | Some m \<Rightarrow> m) = Inr budget"
      and u: "memory_usage config es 0 = Inr used"
      and a: "alloc = \<lparr>node_id = (case node_config_id node of None \<Rightarrow> ''unknown'' | Some i \<Rightarrow> i),
                     device = (case gpu_device gpu of None \<Rightarrow> ''cpu'' | Some d \<Rightarrow> d),
                     memory_budget = budget, experts = es, memory_used = used\<rparr>"
    by (auto simp add: allocate_node_def Let_def gpu_def es_def split: sum.splits)
  show "experts alloc =
           concat (map (\<lambda>pattern. expand_expert_pattern pattern all_experts) (node_experts node))"
    by (simp add: a es_def expand_patterns_concat)
  show "\<exists>bs. map (\<lambda>e. total_bytes (build_expert config e)) (experts alloc) = map Inr bs \<and>
              memory_used alloc = sum_list bs"
    using memory_usage_sum [OF u] by (simp add: a)
  show "parse_memory (case node_gpu node of None \<Rightarrow> ''8GB''
           | Some g \<Rightarrow> (case gpu_memory g of None \<Rightarrow> ''8GB'' | Some m \<Rightarrow> m))
         = Inr (memory_budget alloc)"
    using b by (auto simp add: a gpu_def split: option.splits)
qed

lemma allocate_nodes_Inr:
  "allocate_nodes config all_experts nodes = Inr allocs \<Longrightarrow>
   list_all2 (\<lambda>node alloc. allocate_node config all_experts node = Inr alloc) nodes allocs"
proof (induction nodes arbitrary: allocs)
  case Nil
  then show ?case by simp
next
  case (Cons node nodes)
  then show ?case by (auto split: sum.splits)
qed

lemma node_info_Inr:
  assumes "node_info alloc = Inr info"
  shows "memory_used_bytes info = memory_used alloc"
    and "memory_budget_bytes info = memory_budget alloc"
    and "info_experts info = experts alloc"
    and "expert_count info = length (experts alloc)"
    and "if 0 < memory_budget alloc
         then \<exists>r. round_binary64 (of_int (memory_used alloc) / of_int (memory_budget alloc)) = Finite r \<and>
                  memory_utilization info = PyFloat r
         else memory_utilization info = PyInt 0"
  using assms
  by (auto simp add: node_info_def py_int_truediv_def split: sum.splits if_splits pyfloat.splits)

lemma plan_allocations_Inr:
  "plan_allocations config allocs (nodes, total_used, total_budget, details)
     = Inr (nodes', total_used', total_budget', details') \<Longrightarrow>
   \<exists>new. nodes' = nodes @ new \<and>
         list_all2 (\<lambda>alloc info. node_info alloc = Inr info) allocs new \<and>
         total_used' = total_used + sum_list (map memory_used_bytes new) \<and>
         total_budget' = total_budget + sum_list (map memory_budget_bytes new)"
proof (induction allocs arbitrary: nodes total_used total_budget details)
  case Nil
  then show ?case by simp
next
  case (Cons alloc allocs)
  then obtain info ds where i: "node_info alloc = Inr info"
    and r: "plan_allocations config allocs
              (nodes @ [info], total_used + memory_used alloc,
               total_budget + memory_budget alloc, ds)
            = Inr (nodes', total_used', total_budget', details')"
    by (auto split: sum.splits)
  from Cons.IH [OF r] obtain new where new: "nodes' = (nodes @ [info]) @ new"
    "list_all2 (\<lambda>alloc info. node_info alloc = Inr info) allocs new"
    "total_used' = total_used + memory_used alloc + sum_list (map memory_used_bytes new)"
    "total_budget' = total_budget + memory_budget alloc + sum_list (map memory_budget_bytes new)"
    by blast
  show ?case
    using new i node_info_Inr(1,2) [OF i] by (intro exI [of _ "info # new"]) simp
qed


text \<open>
  Claim C9. When \<^verbatim>\<open>generate_deployment_plan\<close> returns a plan, its total of used memory
  is the sum of the used memory of its node records, and its total budget the sum of
  their budgets. No budget is enforced: there is one node record for every configured
  node, its experts are all the matches of all its patterns, and its used memory is the
  sum of the bytes of all of them. The utilization of a node is the float nearest to
  used / budget when the budget is positive, and \<open>0\<close> otherwise.
\<close>

theorem plan_aggregates:
  assumes "generate_deployment_plan rc config = Inr plan"
  shows "total_memory_used plan = sum_list (map memory_used_bytes (plan_nodes plan)) \<and>
         total_memory_budget plan = sum_list (map memory_budget_bytes (plan_nodes plan)) \<and>
         map info_experts (plan_nodes plan) =
           map (\<lambda>node. concat (map (\<lambda>pattern. expand_expert_pattern pattern
                   (concat (map snd (registry_categories rc)))) (node_experts node)))
             (cluster_nodes rc) \<and>
         (\<forall>n \<in> set (plan_nodes plan).
            (\<exists>bs. map (\<lambda>e. total_bytes (build_expert config e)) (info_experts n) = map Inr bs \<and>
                  memory_used_bytes n = sum_list bs) \<and>
            (if 0 < memory_budget_bytes n
             then \<exists>r. round_binary64 (of_int (memory_used_bytes n) / of_int (memory_budget_bytes n))
                         = Finite r \<and> memory_utilization n = PyFloat r
             else memory_utilization n = PyInt 0))"
proof -
  define all_experts where "all_experts = concat (map snd (registry_categories rc))"
  from assms obtain allocs nodes total_used total_budget details
    where al: "allocate_nodes config all_experts (cluster_nodes rc) = Inr allocs"
      and pl: "plan_allocations config allocs ([], 0, 0, [])
                 = Inr (nodes, total_used, total_budget, details)"
      and p: "plan_nodes plan = nodes" "total_memory_used plan = total_used"
        "total_memory_budget plan = total_budget"
    by (auto simp add: generate_deployment_plan_def build_allocation_def collect_experts_concat
        all_experts_def split: sum.splits prod.splits)
  have A: "list_all2 (\<lambda>node alloc. allocate_node config all_experts node = Inr alloc)
             (cluster_nodes rc) allocs"
    using al by (rule allocate_nodes_Inr)
  from plan_allocations_Inr [OF pl]
  have B: "list_all2 (\<lambda>alloc info. node_info alloc = Inr info) allocs nodes"
    and tu: "total_used = sum_list (map memory_used_bytes nodes)"
    and tb: "total_budget = sum_list (map memory_budget_bytes nodes)"
    by auto
  have ex: "map info_experts nodes =
      map (\<lambda>node. concat (map (\<lambda>pattern. expand_expert_pattern pattern all_experts)
             (node_experts node))) (cluster_nodes rc)"
  proof (rule nth_equalityI)
    show "length (map info_experts nodes) = length (map (\<lambda>node. concat (map (\<lambda>pattern.
        expand_expert_pattern pattern all_experts) (node_experts node))) (cluster_nodes rc))"
      using A B by (simp add: list_all2_lengthD)
  next
    fix i assume "i < length (map info_experts nodes)"
    then have i: "i < length nodes" by simp
    then have ia: "i < length allocs" and ic: "i < length (cluster_nodes rc)"
      using A B by (simp_all add: list_all2_lengthD)
    have 1: "node_info (allocs ! i) = Inr (nodes ! i)"
      using B ia by (rule list_all2_nthD)
    have 2: "allocate_node config all_experts (cluster_nodes rc ! i) = Inr (allocs ! i)"
      using A ic by (rule list_all2_nthD)
    show "map info_experts nodes ! i = map (\<lambda>node. concat (map (\<lambda>pattern.
        expand_expert_pattern pattern all_experts) (node_experts node))) (cluster_nodes rc) ! i"
      using i ic node_info_Inr(3) [OF 1] allocate_node_Inr(1) [OF 2] by simp
  qed
  have per: "(\<exists>bs. map (\<lambda>e. total_bytes (build_expert config e)) (info_experts n) = map Inr bs \<and>
                  memory_used_bytes n = sum_list bs) \<and>
            (if 0 < memory_budget_bytes n
             then \<exists>r. round_binary64 (of_int (memory_used_bytes n) / of_int (memory_budget_bytes n))
                         = Finite r \<and> memory_utilization n = PyFloat r
             else memory_utilization n = PyInt 0)" if "n \<in> set nodes" for n
  proof -
    from that obtain i where i: "i < length nodes" and n: "n = nodes ! i"
      by (auto simp add: in_set_conv_nth)
    then have ia: "i < length allocs" and ic: "i < length (cluster_nodes rc)"
      using A B by (simp_all add: list_all2_lengthD)
    have 1: "node_info (allocs ! i) = Inr n"
      unfolding n using B ia by (rule list_all2_nthD)
    have 2: "allocate_node config all_experts (cluster_nodes rc ! i) = Inr (allocs ! i)"
      using A ic by (rule list_all2_nthD)
    show ?thesis
      using node_info_Inr [OF 1] allocate_node_Inr(2) [OF 2] by simp
  qed
  show ?thesis
    unfolding p all_experts_def [symmetric] using tu tb ex per by blast
qed

lemma ilog2_3072: "max (ilog2 \<bar>3072\<bar>) (- 1022) = 11"
  by (simp add: ilog2_def bit_length.simps)

lemma round_binary64_3072: "round_binary64 3072 = Finite 3072"
  by (subst round_binary64_step [OF _ ilog2_3072]) (simp_all add: pow2_def py_round_def Let_def)

lemma py_int_truediv_example: "py_int_truediv 3145728 1024 = Inr 3072"
  by (simp add: py_int_truediv_def round_binary64_3072)

lemma parse_memory_1024: "parse_memory ''1024'' = Inr 1024"
  by (simp add: parse_memory_def units_def str_eval py_int_of_str_def)

lemma parse_memory_0: "parse_memory ''0'' = Inr 0"
  by (simp add: parse_memory_def units_def str_eval py_int_of_str_def)

lemma scenario_size_bytes:
  "size_bytes \<lparr>name = n, shape = [512, 2048], precision = INT4,
      quantization_scale = None, quantization_zero_point = None\<rparr> = Inr 524288"
  "size_bytes \<lparr>name = n, shape = [2048, 512], precision = INT4,
      quantization_scale = None, quantization_zero_point = None\<rparr> = Inr 524288"
  by (simp_all add: size_bytes_def numel_def float_of_int_exact py_trunc_def)

lemma scenario_total_bytes: "total_bytes (build_expert scenario_config eid) = Inr 1572864"
  by (simp add: total_bytes_def build_expert_def scenario_config_def scenario_size_bytes)

lemma scenario_allocation:
  "build_allocation scenario_runtime scenario_config =
     Inr [\<lparr>node_id = ''node-0'', device = ''cuda:0'', memory_budget = 1024,
           experts = [''expert-0'', ''expert-1''], memory_used = 3145728\<rparr>,
          \<lparr>node_id = ''node-1'', device = ''cpu'', memory_budget = 0,
           experts = [''expert-1''], memory_used = 1572864\<rparr>]"
  by (simp add: build_allocation_def scenario_runtime_def collect_experts_def allocate_node_def
      expand_patterns_def expand_expert_pattern_def endswith_def startswith_def
      parse_memory_1024 parse_memory_0 scenario_total_bytes)

lemma scenario_router: "\<exists>d. to_dict (build_router scenario_config) = Inr d"
  by (simp add: to_dict_def build_router_def scenario_config_def size_bytes_def numel_def)

lemma scenario_expert_info: "\<exists>d. expert_info scenario_config alloc eid = Inr d"
proof -
  have "\<exists>d. to_dict (up_proj (build_expert scenario_config eid)) = Inr d"
    "\<exists>d. to_dict (down_proj (build_expert scenario_config eid)) = Inr d"
    "\<exists>g d. gate_proj (build_expert scenario_config eid) = Some g \<and> to_dict g = Inr d"
    by (simp_all add: to_dict_def build_expert_def scenario_config_def scenario_size_bytes)
  then obtain u d g gd where "to_dict (up_proj (build_expert scenario_config eid)) = Inr u"
    "to_dict (down_proj (build_expert scenario_config eid)) = Inr d"
    "gate_proj (build_expert scenario_config eid) = Some g" "to_dict g = Inr gd"
    by blast
  then show ?thesis by (simp add: expert_info_def Let_def scenario_total_bytes)
qed

lemma scenario_expert_details: "\<exists>ds'. expert_details scenario_config alloc es ds = Inr ds'"
proof (induction es arbitrary: ds)
  case Nil
  then show ?case by simp
next
  case (Cons e es)
  obtain d where "expert_info scenario_config alloc e = Inr d"
    using scenario_expert_info by blast
  then show ?case using Cons.IH by simp
qed

lemma scenario_plan_allocations:
  "\<exists>nodes ds.
     plan_allocations scenario_config
       [\<lparr>node_id = ''node-0'', device = ''cuda:0'', memory_budget = 1024,
         experts = [''expert-0'', ''expert-1''], memory_used = 3145728\<rparr>,
        \<lparr>node_id = ''node-1'', device = ''cpu'', memory_budget = 0,
         experts = [''expert-1''], memory_used = 1572864\<rparr>] ([], 0, 0, [])
     = Inr (nodes, 4718592, 1024, ds) \<and>
     map memory_used_bytes nodes = [3145728, 1572864] \<and>
     map memory_budget_bytes nodes = [1024, 0] \<and>
     map memory_utilization nodes = [PyFloat 3072, PyInt 0]"
proof -
  let ?a0 = "\<lparr>node_id = ''node-0'', device = ''cuda:0'', memory_budget = 1024,
         experts = [''expert-0'', ''expert-1''], memory_used = 3145728\<rparr>"
  let ?a1 = "\<lparr>node_id = ''node-1'', device = ''cpu'', memory_budget = 0,
         experts = [''expert-1''], memory_used = 1572864\<rparr>"
  obtain d0 where d0: "expert_details scenario_config ?a0 (experts ?a0) [] = Inr d0"
    using scenario_expert_details by blast
  obtain d1 where d1: "expert_details scenario_config ?a1 (experts ?a1) d0 = Inr d1"
    using scenario_expert_details by blast
  have n0: "node_info ?a0 = Inr \<lparr>info_node_id = ''node-0'', info_device = ''cuda:0'',
      memory_budget_bytes = 1024, memory_used_bytes = 3145728,
      memory_utilization = PyFloat 3072, expert_count = 2,
      info_experts = [''expert-0'', ''expert-1'']\<rparr>"
    by (simp add: node_info_def py_int_truediv_example)
  have n1: "node_info ?a1 = Inr \<lparr>info_node_id = ''node-1'', info_device = ''cpu'',
      memory_budget_bytes = 0, memory_used_bytes = 1572864,
      memory_utilization = PyInt 0, expert_count = 1,
      info_experts = [''expert-1'']\<rparr>"
    by (simp add: node_info_def)
  show ?thesis using d0 d1 by (simp add: n0 n1)
qed

text \<open>
  Two experts of \<open>1572864\<close> bytes each on a node of \<open>1024\<close> bytes: the plan is emitted
  with utilization \<open>3072.0\<close>. A node with budget \<open>0\<close> has utilization \<open>0\<close>.
\<close>

theorem plan_aggregates_witness:
  "\<exists>plan. generate_deployment_plan scenario_runtime scenario_config = Inr plan \<and>
      map memory_used_bytes (plan_nodes plan) = [3145728, 1572864] \<and>
      map memory_budget_bytes (plan_nodes plan) = [1024, 0] \<and>
      map memory_utilization (plan_nodes plan) = [PyFloat 3072, PyInt 0] \<and>
      total_memory_used plan = sum_list (map memory_used_bytes (plan_nodes plan)) \<and>
      total_memory_budget plan = sum_list (map memory_budget_bytes (plan_nodes plan)) \<and>
      total_memory_used plan = 4718592 \<and> total_memory_budget plan = 1024"
proof -
  obtain r where r: "to_dict (build_router scenario_config) = Inr r"
    using scenario_router by blast
  obtain nodes ds where pa: "plan_allocations scenario_config
       [\<lparr>node_id = ''node-0'', device = ''cuda:0'', memory_budget = 1024,
         experts = [''expert-0'', ''expert-1''], memory_used = 3145728\<rparr>,
        \<lparr>node_id = ''node-1'', device = ''cpu'', memory_budget = 0,
         experts = [''expert-1''], memory_used = 1572864\<rparr>] ([], 0, 0, [])
     = Inr (nodes, 4718592, 1024, ds)"
    and v: "map memory_used_bytes nodes = [3145728, 1572864]"
      "map memory_budget_bytes nodes = [1024, 0]"
      "map memory_utilization nodes = [PyFloat 3072, PyInt 0]"
    using scenario_plan_allocations by (elim exE conjE)
  obtain plan where p: "generate_deployment_plan scenario_runtime scenario_config = Inr plan"
    and q: "plan_nodes plan = nodes" "total_memory_used plan = 4718592"
      "total_memory_budget plan = 1024"
    unfolding generate_deployment_plan_def scenario_allocation sum.case r pa prod.case by simp
  have "total_memory_used plan = sum_list (map memory_used_bytes (plan_nodes plan)) \<and>
        total_memory_budget plan = sum_list (map memory_budget_bytes (plan_nodes plan))"
    using plan_aggregates [OF p] by blast
  with p q v show ?thesis by (intro exI [of _ plan]) simp
qed

section \<open>Memory strings\<close>

lemma digits_ok_last: "digits_ok s \<Longrightarrow> s \<noteq> [] \<and> is_digit (last s)"
  by (induction s rule: digits_ok.induct) (auto split: if_splits)

lemma strip_keeps_last:
  assumes "\<not> is_space c"
  shows "\<exists>y'. strip (y @ [c]) = y' @ [c]"
proof -
  have "\<exists>y'. dropWhile is_space (y @ [c]) = y' @ [c]"
  proof (cases "\<forall>x \<in> set y. is_space x")
    case True
    then have "dropWhile is_space (y @ [c]) = [c]" using assms by (simp add: dropWhile_append)
    then show ?thesis by simp
  next
    case False
    then have "dropWhile is_space (y @ [c]) = dropWhile is_space y @ [c]"
      by (simp add: dropWhile_append)
    then show ?thesis by blast
  qed
  then obtain y' where "dropWhile is_space (y @ [c]) = y' @ [c]" by blast
  then show ?thesis using assms by (simp add: strip_def)
qed

lemma parse_sign_keeps_last:
  assumes "c \<noteq> CHR ''-''" "c \<noteq> CHR ''+''"
  shows "\<exists>neg b. parse_sign (y @ [c]) = (neg, b @ [c])"
  using assms by (cases y) auto

lemma parse_decimal_bad_last:
  assumes nd: "\<not> is_digit c" and c: "c \<noteq> CHR ''E''" "c \<noteq> CHR ''.''" "c \<noteq> CHR ''-''" "c \<noteq> CHR ''+''"
  shows "parse_decimal (b @ [c]) = None"
proof (cases "CHR ''E'' \<in> set b")
  case True
  then obtain r where expo: "dropWhile (\<lambda>x. x \<noteq> CHR ''E'') (b @ [c]) = CHR ''E'' # r @ [c]"
  proof -
    from True have ne: "dropWhile (\<lambda>x. x \<noteq> CHR ''E'') b \<noteq> []" by simp
    then have h: "hd (dropWhile (\<lambda>x. x \<noteq> CHR ''E'') b) = CHR ''E''"
      using hd_dropWhile [of "\<lambda>x. x \<noteq> CHR ''E''" b] by auto
    have "dropWhile (\<lambda>x. x \<noteq> CHR ''E'') (b @ [c]) = dropWhile (\<lambda>x. x \<noteq> CHR ''E'') b @ [c]"
      using True by (simp add: dropWhile_append)
    with ne h have "dropWhile (\<lambda>x. x \<noteq> CHR ''E'') (b @ [c])
        = CHR ''E'' # tl (dropWhile (\<lambda>x. x \<noteq> CHR ''E'') b) @ [c]"
      by (cases "dropWhile (\<lambda>x. x \<noteq> CHR ''E'') b") auto
    then show ?thesis using that by blast
  qed
  obtain neg ed where ps: "parse_sign (r @ [c]) = (neg, ed @ [c])"
    using parse_sign_keeps_last [OF c(3,4)] by blast
  have "\<not> digits_ok (ed @ [c])" using digits_ok_last [of "ed @ [c]"] nd by auto
  then show ?thesis by (simp add: parse_decimal_def expo ps Let_def)
next
  case False
  then have "\<forall>x \<in> set b. x \<noteq> CHR ''E''" by auto
  then have expo: "dropWhile (\<lambda>x. x \<noteq> CHR ''E'') (b @ [c]) = []"
    and mant: "takeWhile (\<lambda>x. x \<noteq> CHR ''E'') (b @ [c]) = b @ [c]"
    using c(1) by simp_all
  show ?thesis
  proof (cases "CHR ''.'' \<in> set b")
    case True
    then have ne: "dropWhile (\<lambda>x. x \<noteq> CHR ''.'') b \<noteq> []" by simp
    have "dropWhile (\<lambda>x. x \<noteq> CHR ''.'') (b @ [c]) = dropWhile (\<lambda>x. x \<noteq> CHR ''.'') b @ [c]"
      using True by (simp add: dropWhile_append)
    then obtain p r where point: "dropWhile (\<lambda>x. x \<noteq> CHR ''.'') (b @ [c]) = p # r @ [c]"
      using ne by (cases "dropWhile (\<lambda>x. x \<noteq> CHR ''.'') b") auto
    have "\<not> digits_ok (r @ [c])" using digits_ok_last [of "r @ [c]"] nd by auto
    then show ?thesis using True by (auto simp add: parse_decimal_def expo mant point Let_def)
  next
    case False
    then have "\<forall>x \<in> set b. x \<noteq> CHR ''.''" by auto
    then have point: "dropWhile (\<lambda>x. x \<noteq> CHR ''.'') (b @ [c]) = []"
      and ip: "takeWhile (\<lambda>x. x \<noteq> CHR ''.'') (b @ [c]) = b @ [c]"
      using c(2) by simp_all
    have "\<not> digits_ok (b @ [c])" using digits_ok_last [of "b @ [c]"] nd by auto
    then show ?thesis by (simp add: parse_decimal_def expo mant point ip Let_def)
  qed
qed

lemma unit_letter_space: "c \<in> {CHR ''K'', CHR ''M'', CHR ''G'', CHR ''T''} \<Longrightarrow> \<not> is_space c"
  by (elim insertE emptyE) (simp_all add: is_space_def)

lemma unit_letter_digit: "c \<in> {CHR ''K'', CHR ''M'', CHR ''G'', CHR ''T''} \<Longrightarrow> \<not> is_digit c"
  by (elim insertE emptyE) (simp_all add: is_digit_def)

lemma unit_letter_upper: "c \<in> {CHR ''K'', CHR ''M'', CHR ''G'', CHR ''T''} \<Longrightarrow> upper_char c = c"
  by (elim insertE emptyE) (simp_all add: upper_char_def)

lemma py_float_bad_last:
  assumes "c \<in> {CHR ''K'', CHR ''M'', CHR ''G'', CHR ''T''}"
  shows "py_float (y @ [c]) = Inl ValueError"
proof -
  have sp: "\<not> is_space c" using assms by (rule unit_letter_space)
  have up: "upper_char c = c" using assms by (rule unit_letter_upper)
  have nd: "\<not> is_digit c" using assms by (rule unit_letter_digit)
  have sg: "c \<noteq> CHR ''-''" "c \<noteq> CHR ''+''" using assms by auto
  have ce: "c \<noteq> CHR ''E''" "c \<noteq> CHR ''.''" using assms by auto
  obtain y' where s: "strip (y @ [c]) = y' @ [c]" using strip_keeps_last [OF sp] by blast
  obtain neg b where ps: "parse_sign (upper y' @ [c]) = (neg, b @ [c])"
    using parse_sign_keeps_last [OF sg] by blast
  have neq: "b @ [c] \<noteq> s" if "last s \<noteq> c" for s using that by auto
  have "last ''INF'' \<noteq> c" "last ''INFINITY'' \<noteq> c" "last ''NAN'' \<noteq> c"
    using assms by auto
  then have kw: "b @ [c] \<noteq> ''INF''" "b @ [c] \<noteq> ''INFINITY''" "b @ [c] \<noteq> ''NAN''"
    by (simp_all only: neq not_False_eq_True)
  have pd: "parse_decimal (b @ [c]) = None" using nd ce sg by (rule parse_decimal_bad_last)
  have "py_float (y @ [c]) =
      (case parse_sign (upper y' @ [c]) of (neg, body) \<Rightarrow>
        if body = ''INF'' \<or> body = ''INFINITY'' then Inr (if neg then NegInf else PosInf)
        else if body = ''NAN'' then Inr NaN
        else case parse_decimal body of None \<Rightarrow> Inl ValueError
             | Some r \<Rightarrow> Inr (round_binary64 (if neg then - r else r)))"
    by (simp add: py_float_def s upper_def up)
  also have "\<dots> = Inl ValueError" unfolding ps prod.case using kw pd by simp
  finally show ?thesis .
qed

lemma strip_keeps_suffix:
  assumes "\<not> is_space c" "\<not> is_space d"
  shows "\<exists>y'. strip (y @ [c, d]) = y' @ [c, d]"
proof -
  have "\<exists>y'. dropWhile is_space (y @ [c, d]) = y' @ [c, d]"
  proof (cases "\<forall>x \<in> set y. is_space x")
    case True
    then have "dropWhile is_space (y @ [c, d]) = [c, d]"
      using assms by (simp add: dropWhile_append)
    then show ?thesis by simp
  next
    case False
    then have "dropWhile is_space (y @ [c, d]) = dropWhile is_space y @ [c, d]"
      by (simp add: dropWhile_append)
    then show ?thesis by blast
  qed
  then obtain y' where "dropWhile is_space (y @ [c, d]) = y' @ [c, d]" by blast
  then show ?thesis using assms by (simp add: strip_def)
qed

lemma parse_memory_unit_suffix:
  assumes "upper u \<in> {''KB'', ''MB'', ''GB'', ''TB''}"
  shows "parse_memory (s @ u) = Inl ValueError"
proof -
  from assms obtain c where u: "upper u = [c, CHR ''B'']"
    and c: "c \<in> {CHR ''K'', CHR ''M'', CHR ''G'', CHR ''T''}" by auto
  have sp: "\<not> is_space c" using c by (rule unit_letter_space)
  have spb: "\<not> is_space CHR ''B''" by (simp add: is_space_def)
  obtain y' where t: "strip (upper (s @ u)) = y' @ [c, CHR ''B'']"
    using strip_keeps_suffix [OF sp spb, of "upper s"] by (auto simp add: upper_def u [unfolded upper_def])
  have e: "endswith (y' @ [c, CHR ''B'']) ''B''" by (simp add: endswith_def)
  have k: "take (length (y' @ [c, CHR ''B'']) - length ''B'') (y' @ [c, CHR ''B'']) = y' @ [c]"
    by simp
  have "parse_memory_units (y' @ [c, CHR ''B'']) units = Inl ValueError"
    unfolding units_def parse_memory_units.simps using e
    by (simp only: if_True k py_float_bad_last [OF c] sum.case)
  then show ?thesis by (simp add: parse_memory_def t)
qed

lemma parse_decimal_512: "parse_decimal ''512'' = Some 512"
  by (simp add: parse_decimal_def str_eval pow10_def)

lemma ilog2_512: "max (ilog2 \<bar>512\<bar>) (- 1022) = 9"
  by (simp add: ilog2_def bit_length.simps)

lemma round_binary64_512: "round_binary64 512 = Finite 512"
  by (subst round_binary64_step [OF _ ilog2_512]) (simp_all add: pow2_def py_round_def Let_def)

lemma py_float_512: "py_float ''512'' = Inr (Finite 512)"
  by (simp add: py_float_def str_eval parse_decimal_512 round_binary64_512)

lemma parse_memory_512B: "parse_memory ''512B'' = Inr 512"
proof -
  have s: "strip (upper ''512B'') = ''512B''" by (simp add: str_eval)
  have e: "endswith ''512B'' ''B''" by (simp add: endswith_def)
  have m: "py_float_mul_int (Finite 512) 1 = Inr (Finite 512)"
    by (simp add: py_float_mul_int_def float_of_int_exact round_binary64_512)
  show ?thesis
    unfolding parse_memory_def s units_def parse_memory_units.simps using e
    by (simp add: py_float_512 m py_trunc_def)
qed

text \<open>
  Claim C1 says that a string with the suffix \<open>KB\<close>, \<open>MB\<close>, \<open>GB\<close> or \<open>TB\<close> is parsed
  as the number times a power of \<open>1024\<close>. In the code the loop over \<^verbatim>\<open>units\<close> tests
  the suffix \<open>B\<close> first, and every such string ends with \<open>B\<close>: the text before the
  \<open>B\<close> still ends with the letter \<open>K\<close>, \<open>M\<close>, \<open>G\<close> or \<open>T\<close>, and \<^verbatim>\<open>float\<close> raises
  \<^verbatim>\<open>ValueError\<close> on it. So \<^verbatim>\<open>parse_memory\<close> raises for every string with one of these
  suffixes, in any case of the letters, \<open>16GB\<close> and \<open>512MB\<close> among them. A string of
  digits, and digits followed by \<open>B\<close>, are parsed as the claim says.
\<close>

theorem parse_memory_unit_suffix_raises:
  "(upper u \<in> {''KB'', ''MB'', ''GB'', ''TB''} \<longrightarrow> parse_memory (s @ u) = Inl ValueError) \<and>
   parse_memory ''16GB'' = Inl ValueError \<and>
   parse_memory ''512MB'' = Inl ValueError \<and>
   parse_memory ''1024'' = Inr 1024 \<and>
   parse_memory ''512B'' = Inr 512"
proof -
  have u: "upper ''GB'' \<in> {''KB'', ''MB'', ''GB'', ''TB''}"
    "upper ''MB'' \<in> {''KB'', ''MB'', ''GB'', ''TB''}"
    by (simp_all add: upper_def upper_char_def)
  have "parse_memory (''16'' @ ''GB'') = Inl ValueError"
    "parse_memory (''512'' @ ''MB'') = Inl ValueError"
    using u by (simp_all only: parse_memory_unit_suffix)
  then show ?thesis
    using parse_memory_unit_suffix [of u s] parse_memory_1024 parse_memory_512B by simp
qed

text \<open>The lower-case string \<open>16gb\<close>.\<close>

theorem parse_memory_unit_suffix_raises_witness:
  "upper ''gb'' \<in> {''KB'', ''MB'', ''GB'', ''TB''} \<and> parse_memory (''16'' @ ''gb'') = Inl ValueError"
proof -
  have u: "upper ''gb'' \<in> {''KB'', ''MB'', ''GB'', ''TB''}"
    by (simp add: upper_def upper_char_def)
  with parse_memory_unit_suffix_raises [of "''gb''" "''16''"] show ?thesis by blast
qed

section \<open>Expert patterns\<close>

lemma startswith_iff: "startswith e pre \<longleftrightarrow> (\<exists>rest. e = pre @ rest)"
proof
  assume "startswith e pre"
  then have "e = pre @ drop (length pre) e"
    unfolding startswith_def by (metis append_take_drop_id)
  then show "\<exists>rest. e = pre @ rest" ..
next
  assume "\<exists>rest. e = pre @ rest"
  then show "startswith e pre" by (auto simp add: startswith_def)
qed

lemma endswith_star: "endswith (pre @ ''*'') ''*''"
  by (simp add: endswith_def)

lemma endswith_last: "endswith s [c] \<Longrightarrow> c \<in> set s"
proof -
  assume "endswith s [c]"
  then have "drop (length s - 1) s = [c]" by (simp add: endswith_def)
  then have "c \<in> set (drop (length s - 1) s)" by simp
  then show ?thesis by (rule in_set_dropD)
qed

text \<open>
  Claim C8. A pattern that ends with \<open>*\<close> expands to the expert ids of the registry
  that start with the text before the \<open>*\<close>, in the order of the registry. A pattern
  without \<open>*\<close> expands to the one-element list of itself when it is in the registry, and
  to the empty list otherwise.
\<close>

theorem expand_expert_pattern_cases:
  "expand_expert_pattern (pre @ ''*'') registry = filter (\<lambda>e. \<exists>rest. e = pre @ rest) registry \<and>
   (CHR ''*'' \<notin> set pattern \<longrightarrow>
      expand_expert_pattern pattern registry = (if pattern \<in> set registry then [pattern] else []))"
proof
  show "expand_expert_pattern (pre @ ''*'') registry = filter (\<lambda>e. \<exists>rest. e = pre @ rest) registry"
    by (simp add: expand_expert_pattern_def endswith_star startswith_iff)
next
  show "CHR ''*'' \<notin> set pattern \<longrightarrow>
      expand_expert_pattern pattern registry = (if pattern \<in> set registry then [pattern] else [])"
    using endswith_last [of pattern "CHR ''*''"] by (auto simp add: expand_expert_pattern_def)
qed

text \<open>The two examples of the specification.\<close>

theorem expand_expert_pattern_cases_witness:
  "expand_expert_pattern ''math-*'' [''math-algebra'', ''math-calculus'', ''lang-python'']
     = [''math-algebra'', ''math-calculus''] \<and>
   CHR ''*'' \<notin> set ''lang-go'' \<and>
   expand_expert_pattern ''lang-go'' [''math-algebra'', ''math-calculus'', ''lang-python''] = []"
proof -
  have 1: "expand_expert_pattern (''math-'' @ ''*'') [''math-algebra'', ''math-calculus'', ''lang-python'']
      = filter (\<lambda>e. \<exists>rest. e = ''math-'' @ rest) [''math-algebra'', ''math-calculus'', ''lang-python'']"
    and 2: "CHR ''*'' \<notin> set ''lang-go'' \<longrightarrow>
      expand_expert_pattern ''lang-go'' [''math-algebra'', ''math-calculus'', ''lang-python'']
      = (if ''lang-go'' \<in> set [''math-algebra'', ''math-calculus'', ''lang-python'']
         then [''lang-go''] else [])"
    using expand_expert_pattern_cases
      [of "''math-''" "[''math-algebra'', ''math-calculus'', ''lang-python'']" "''lang-go''"]
    by blast+
  have s: "CHR ''*'' \<notin> set ''lang-go''" by simp
  from 1 have "expand_expert_pattern ''math-*'' [''math-algebra'', ''math-calculus'', ''lang-python'']
     = [''math-algebra'', ''math-calculus'']"
    by (simp add: startswith_iff [symmetric] startswith_def)
  moreover from 2 s
  have "expand_expert_pattern ''lang-go'' [''math-algebra'', ''math-calculus'', ''lang-python''] = []"
    by simp
  ultimately show ?thesis using s by blast
qed

text \<open>
  The default memory string of \<^verbatim>\<open>build_allocation\<close>, \<open>8GB\<close>, is one of the strings
  on which \<^verbatim>\<open>parse_memory\<close> raises.
\<close>

lemma default_memory_raises: "parse_memory ''8GB'' = Inl ValueError"
  using parse_memory_unit_suffix [of "''GB''" "''8''"] by (simp add: upper_def upper_char_def)

lemma allocate_node_default_memory_raises:
  assumes "node_gpu node = None \<or> (\<exists>g. node_gpu node = Some g \<and> gpu_memory g = None)"
  shows "allocate_node config all_experts node = Inl ValueError"
  using assms by (auto simp add: allocate_node_def default_memory_raises)

end
